theory Spec2Isabelle
  imports Main "HOL-Library.Word"
begin

unbundle bit_operations_syntax

section \<open>Setup packets (guh/protocol/setup.py)\<close>

text \<open>
  The enums of \<open>SetupPayload\<close> take their numbers from the \<open>usb_protocol\<close> package, which is
  not part of the repository. Their values are the ones of the USB 2.0 standard, which the
  specification's table of setup packets repeats (bmRequestType 0x80 / 0x00, bRequest 0x06,
  0x05, 0x09).
\<close>

datatype Recipient = DEVICE | INTERFACE | ENDPOINT | OTHER
datatype RequestType = STANDARD | CLASS | VENDOR | RESERVED
datatype Direction = HOST_TO_DEVICE | DEVICE_TO_HOST
datatype Request = SET_ADDRESS | GET_DESCRIPTOR | SET_CONFIGURATION

text \<open>Modelled from the spec: \<open>int(USBRequestRecipient.X)\<close> of usb_protocol.types.\<close>
fun Recipient_value :: "Recipient \<Rightarrow> int" where
  "Recipient_value DEVICE = 0"
| "Recipient_value INTERFACE = 1"
| "Recipient_value ENDPOINT = 2"
| "Recipient_value OTHER = 3"

text \<open>Modelled from the spec: \<open>int(USBRequestType.X)\<close> of usb_protocol.types.\<close>
fun RequestType_value :: "RequestType \<Rightarrow> int" where
  "RequestType_value STANDARD = 0"
| "RequestType_value CLASS = 1"
| "RequestType_value VENDOR = 2"
| "RequestType_value RESERVED = 3"

text \<open>Modelled from the spec: \<open>int(USBDirection.OUT)\<close> and \<open>int(USBDirection.IN)\<close>.\<close>
fun Direction_value :: "Direction \<Rightarrow> int" where
  "Direction_value HOST_TO_DEVICE = 0"
| "Direction_value DEVICE_TO_HOST = 1"

text \<open>Modelled from the spec: \<open>int(USBStandardRequests.X)\<close> of usb_protocol.types.\<close>
fun Request_value :: "Request \<Rightarrow> int" where
  "Request_value SET_ADDRESS = 5"
| "Request_value GET_DESCRIPTOR = 6"
| "Request_value SET_CONFIGURATION = 9"

text \<open>
  The init dictionary handed to \<open>Signal(SetupPayload, init=...)\<close>. The word fields are
  Python integers.
\<close>

record SetupPayload =
  bmRecipient :: Recipient
  bmType :: RequestType
  bmDirection :: Direction
  bRequest :: Request
  wValue :: int
  wIndex :: int
  wLength :: int

text \<open>
  \<open>Signal(SetupPayload, init=d).as_value().init\<close>: the fields packed from bit 0 upwards in
  the order of declaration, bmRequestType being recipient (5 bits), type (2 bits) and
  direction (1 bit); each field is cut to its width.
\<close>

definition as_value_init :: "SetupPayload \<Rightarrow> int" where
  "as_value_init p =
     take_bit 5 (Recipient_value (bmRecipient p))
     OR push_bit 5 (take_bit 2 (RequestType_value (bmType p)))
     OR push_bit 7 (take_bit 1 (Direction_value (bmDirection p)))
     OR push_bit 8 (take_bit 8 (Request_value (bRequest p)))
     OR push_bit 16 (take_bit 16 (wValue p))
     OR push_bit 32 (take_bit 16 (wIndex p))
     OR push_bit 48 (take_bit 16 (wLength p))"

text \<open>\<open>[(v >> (n*8)) & 0xFF for n in range(8)]\<close>\<close>

definition dict_to_bytes :: "SetupPayload \<Rightarrow> int list" where
  "dict_to_bytes p = map (\<lambda>n. drop_bit (n * 8) (as_value_init p) AND 0xFF) [0 ..< 8]"

definition get_descriptor :: "int \<Rightarrow> int \<Rightarrow> int \<Rightarrow> int \<Rightarrow> int list" where
  "get_descriptor descriptor_type descriptor_index language_id len =
     dict_to_bytes \<lparr> bmRecipient = DEVICE, bmType = STANDARD, bmDirection = DEVICE_TO_HOST,
       bRequest = GET_DESCRIPTOR,
       wValue = push_bit 8 descriptor_type OR descriptor_index,
       wIndex = language_id,
       wLength = len \<rparr>"

definition set_address :: "int \<Rightarrow> int list" where
  "set_address address =
     dict_to_bytes \<lparr> bmRecipient = DEVICE, bmType = STANDARD, bmDirection = HOST_TO_DEVICE,
       bRequest = SET_ADDRESS, wValue = address, wIndex = 0, wLength = 0 \<rparr>"

definition set_configuration :: "int \<Rightarrow> int list" where
  "set_configuration configuration =
     dict_to_bytes \<lparr> bmRecipient = DEVICE, bmType = STANDARD, bmDirection = HOST_TO_DEVICE,
       bRequest = SET_CONFIGURATION, wValue = configuration, wIndex = 0, wLength = 0 \<rparr>"

text \<open>Modelled from the spec: \<open>int(DescriptorTypes.DEVICE)\<close> and
  \<open>int(DescriptorTypes.CONFIGURATION)\<close> of usb_protocol.types (wValue 0x0100 and 0x0200 in
  the specification's table).\<close>
definition DescriptorTypes_DEVICE :: int where
  "DescriptorTypes_DEVICE = 1"

definition DescriptorTypes_CONFIGURATION :: int where
  "DescriptorTypes_CONFIGURATION = 2"

section \<open>SOF controller (guh/usbh/sie.py, USBSOFController)\<close>

text \<open>
  \<open>USBHostSpeed\<close> of guh/usbh/types.py. The controller only asks whether the speed is
  \<open>HIGH\<close>.
\<close>

datatype USBHostSpeed = HIGH | FULL | LOW | UNKNOWN

text \<open>The two states of the controller's FSM, and its registers.\<close>

datatype sof_fsm_state = SOF_IDLE | SOF_SEND

record sof_state =
  sof_fsm :: sof_fsm_state
  sof_timer :: "16 word"
  frame_number :: "11 word"
  microframe_number :: "3 word"

text \<open>The timing constants selected by the speed (in cycles of the 60 MHz clock).\<close>

definition sof_cycles :: "USBHostSpeed \<Rightarrow> 16 word" where
  "sof_cycles speed = (if speed = HIGH then 7500 else 60000)"






definition sof_o_valid :: "sof_state \<Rightarrow> bool" where
  "sof_o_valid s = (sof_fsm s = SOF_SEND)"

text \<open>
  One clock cycle. \<open>sof_timer\<close> counts on every cycle; in \<open>IDLE\<close> at
  \<open>sof_cycles - 1\<close> it is set to zero, the frame counters advance and the FSM moves to
  \<open>SEND\<close>, where it waits for \<open>o.ready\<close>.
\<close>

definition sof_step :: "USBHostSpeed \<Rightarrow> bool \<Rightarrow> sof_state \<Rightarrow> sof_state" where
  "sof_step speed o_ready s =
     (case sof_fsm s of
        SOF_IDLE \<Rightarrow>
          if sof_timer s = sof_cycles speed - 1 then
            (if speed = HIGH then
               (if microframe_number s = 7 then
                  s\<lparr>sof_fsm := SOF_SEND, sof_timer := 0, microframe_number := 0,
                    frame_number := frame_number s + 1\<rparr>
                else
                  s\<lparr>sof_fsm := SOF_SEND, sof_timer := 0,
                    microframe_number := microframe_number s + 1\<rparr>)
             else
               s\<lparr>sof_fsm := SOF_SEND, sof_timer := 0, frame_number := frame_number s + 1\<rparr>)
          else s\<lparr>sof_timer := sof_timer s + 1\<rparr>
      | SOF_SEND \<Rightarrow>
          if o_ready then s\<lparr>sof_fsm := SOF_IDLE, sof_timer := sof_timer s + 1\<rparr>
          else s\<lparr>sof_timer := sof_timer s + 1\<rparr>)"

text \<open>
  A run over the values of \<open>o.ready\<close> cycle by cycle, and the SOF tokens handed over on
  \<open>o\<close> during it (a token is handed over in a cycle with \<open>o.valid\<close> and \<open>o.ready\<close>;
  its payload is the frame number).
\<close>

fun sof_run :: "USBHostSpeed \<Rightarrow> bool list \<Rightarrow> sof_state \<Rightarrow> sof_state" where
  "sof_run speed [] s = s"
| "sof_run speed (r # rs) s = sof_run speed rs (sof_step speed r s)"

fun sof_tokens :: "USBHostSpeed \<Rightarrow> bool list \<Rightarrow> sof_state \<Rightarrow> 11 word list" where
  "sof_tokens speed [] s = []"
| "sof_tokens speed (r # rs) s =
     (if sof_o_valid s \<and> r then [frame_number s] else []) @ sof_tokens speed rs (sof_step speed r s)"

definition sof_period :: "USBHostSpeed \<Rightarrow> nat" where
  "sof_period speed = unat (sof_cycles speed)"

section \<open>Serial interface engine (guh/usbh/sie.py, USBSIE)\<close>

datatype TransferType = SETUP | IN | OUT

datatype DataPID = DATA0 | DATA1

datatype TransferResponse = NONE | ACK | NAK | STALL | TIMEOUT | CRC_ERROR | RX_OVERFLOW

text \<open>\<open>USBSIEInterface.Transfer\<close>\<close>

record Transfer =
  xfer_start :: bool
  xfer_type :: TransferType
  xfer_dev_addr :: "7 word"
  xfer_ep_addr :: "4 word"
  xfer_data_pid :: DataPID

datatype sie_fsm_state =
  SIE_RESET | SIE_IDLE | DRAIN_RX | WAIT_TXA | SEND_TOKEN | WAIT_TOKEN_COMPLETE
  | SEND_OUT_DATA | SEND_OUT_ZLP | WAIT_IN_DATA | WAIT_HANDSHAKE | SEND_ACK | IPD_DRAIN_TX

text \<open>
  The signals the SIE's FSM reads in one cycle and does not drive itself: the control
  surface \<open>ctrl\<close>, the reset controller, the SOF controller's windows, the outputs
  \<open>i.ready\<close> and \<open>txa\<close> of the token generator (\<open>USBTokenPacketGenerator\<close> of the same
  file, which follows the transceiver's \<open>tx_ready\<close> and the interpacket timer), and the
  outputs of the LUNA blocks (data transmitter, data receiver, handshake detector), which
  are not part of the repository. All of them are inputs of the step function and are left
  unconstrained.
\<close>

record sie_input =
  reset_active :: bool
  detected_speed :: USBHostSpeed
  ctrl_xfer :: Transfer
  ctrl_txs_valid :: bool
  ctrl_txs_payload :: "8 word"
  ctrl_rxs_ready :: bool
  sof_controller_txa :: bool
  sof_controller_rxa :: bool
  token_generator_i_ready :: bool
  token_generator_txa :: bool
  transmitter_stream_ready :: bool
  receiver_stream_next :: bool
  receiver_stream_payload :: "8 word"
  receiver_ready_for_response :: bool
  receiver_crc_mismatch :: bool
  detected_ack :: bool
  detected_nak :: bool
  detected_stall :: bool

text \<open>
  The registers of the SIE and the contents of its two FIFOs (oldest byte first).
\<close>

record sie_state =
  sie_fsm :: sie_fsm_state
  xfer :: Transfer
  rx_len :: "8 word"
  response :: TransferResponse
  tx_len :: "8 word"
  tx_byte_count :: "16 word"
  ipd :: "10 word"
  tx_fifo :: "8 word list"
  rx_fifo :: "8 word list"

definition fifo_depth :: nat where
  "fifo_depth = 64"

text \<open>
  \<open>amaranth.lib.fifo.SyncFIFO\<close> (a library block, not part of the repository) as a queue of
  at most \<open>fifo_depth\<close> bytes: writable while not full, readable while not empty; in one
  cycle a byte can be taken from the front and another appended.
\<close>

definition w_rdy :: "8 word list \<Rightarrow> bool" where
  "w_rdy q = (length q \<noteq> fifo_depth)"

definition r_rdy :: "8 word list \<Rightarrow> bool" where
  "r_rdy q = (q \<noteq> [])"

definition fifo_next :: "bool \<Rightarrow> 8 word \<Rightarrow> bool \<Rightarrow> 8 word list \<Rightarrow> 8 word list" where
  "fifo_next w_en w_data r_en q =
     (let q' = (if r_en \<and> r_rdy q then tl q else q)
      in if w_en \<and> w_rdy q then q' @ [w_data] else q')"

definition ipd_max :: "USBHostSpeed \<Rightarrow> 10 word" where
  "ipd_max speed = (if speed = HIGH then 100 else 1000)"

text \<open>
  \<open>with m.If(c): ...\<close> as a conditional update of the registers' next values. The
  condition and the right-hand sides read the registers of the current cycle; where several
  \<open>with m.If\<close> blocks of one state assign the same register, the later one in the source
  wins, so the blocks are applied in the order of the source.
\<close>

definition m_If :: "bool \<Rightarrow> ('s \<Rightarrow> 's) \<Rightarrow> 's \<Rightarrow> 's" where
  "m_If c f t = (if c then f t else t)"

text \<open>State \<open>WAIT_IN_DATA\<close>: \<open>s\<close> holds the current registers, the result the next ones.\<close>

definition wait_in_data :: "sie_input \<Rightarrow> sie_state \<Rightarrow> sie_state" where
  "wait_in_data i s =
     (m_If (\<not> sof_controller_rxa i) (\<lambda>t. t\<lparr>response := TIMEOUT, sie_fsm := IPD_DRAIN_TX\<rparr>)
      \<circ> m_If (detected_stall i) (\<lambda>t. t\<lparr>response := STALL, sie_fsm := IPD_DRAIN_TX\<rparr>)
      \<circ> m_If (detected_nak i) (\<lambda>t. t\<lparr>response := NAK, sie_fsm := IPD_DRAIN_TX\<rparr>)
      \<circ> m_If (receiver_crc_mismatch i) (\<lambda>t. t\<lparr>response := CRC_ERROR, sie_fsm := IPD_DRAIN_TX\<rparr>)
      \<circ> m_If (receiver_ready_for_response i)
          (\<lambda>t. if response s = RX_OVERFLOW then t\<lparr>sie_fsm := IPD_DRAIN_TX\<rparr>
               else t\<lparr>sie_fsm := SEND_ACK\<rparr>)
      \<circ> m_If (receiver_stream_next i)
          (\<lambda>t. (if w_rdy (rx_fifo s) then t else t\<lparr>response := RX_OVERFLOW\<rparr>)
                 \<lparr>rx_len := rx_len s + 1\<rparr>)) s"

text \<open>State \<open>WAIT_HANDSHAKE\<close>.\<close>

definition wait_handshake :: "sie_input \<Rightarrow> sie_state \<Rightarrow> sie_state" where
  "wait_handshake i s =
     (m_If (\<not> sof_controller_rxa i) (\<lambda>t. t\<lparr>response := TIMEOUT, sie_fsm := IPD_DRAIN_TX\<rparr>)
      \<circ> m_If (detected_stall i) (\<lambda>t. t\<lparr>response := STALL, sie_fsm := IPD_DRAIN_TX\<rparr>)
      \<circ> m_If (detected_nak i) (\<lambda>t. t\<lparr>response := NAK, sie_fsm := IPD_DRAIN_TX\<rparr>)
      \<circ> m_If (detected_ack i) (\<lambda>t. t\<lparr>response := ACK, sie_fsm := IPD_DRAIN_TX\<rparr>)) s"

text \<open>The FSM's synchronous assignments in one cycle.\<close>

definition sie_fsm_step :: "sie_input \<Rightarrow> sie_state \<Rightarrow> sie_state" where
  "sie_fsm_step i s =
     (case sie_fsm s of
        SIE_RESET \<Rightarrow> if \<not> reset_active i then s\<lparr>sie_fsm := SIE_IDLE\<rparr> else s
      | SIE_IDLE \<Rightarrow>
          if xfer_start (ctrl_xfer i) then
            s\<lparr>xfer := ctrl_xfer i, tx_byte_count := 0, rx_len := 0, response := NONE,
              tx_len := of_nat (length (tx_fifo s)), sie_fsm := DRAIN_RX\<rparr>
          else s
      | DRAIN_RX \<Rightarrow> if \<not> r_rdy (rx_fifo s) then s\<lparr>sie_fsm := WAIT_TXA\<rparr> else s
      | WAIT_TXA \<Rightarrow> if sof_controller_txa i then s\<lparr>sie_fsm := SEND_TOKEN\<rparr> else s
      | SEND_TOKEN \<Rightarrow>
          if token_generator_i_ready i then s\<lparr>sie_fsm := WAIT_TOKEN_COMPLETE\<rparr> else s
      | WAIT_TOKEN_COMPLETE \<Rightarrow>
          if token_generator_txa i then
            (if xfer_type (xfer s) = IN then s\<lparr>sie_fsm := WAIT_IN_DATA\<rparr>
             else if tx_len s \<noteq> 0 then s\<lparr>sie_fsm := SEND_OUT_DATA\<rparr>
             else s\<lparr>sie_fsm := SEND_OUT_ZLP\<rparr>)
          else s
      | SEND_OUT_DATA \<Rightarrow>
          if transmitter_stream_ready i \<and> r_rdy (tx_fifo s) then
            (if int (unat (tx_byte_count s)) = int (unat (tx_len s)) - 1
             then s\<lparr>tx_byte_count := 0, sie_fsm := WAIT_HANDSHAKE\<rparr>
             else s\<lparr>tx_byte_count := tx_byte_count s + 1\<rparr>)
          else s
      | SEND_OUT_ZLP \<Rightarrow> s\<lparr>sie_fsm := WAIT_HANDSHAKE\<rparr>
      | WAIT_IN_DATA \<Rightarrow> wait_in_data i s
      | WAIT_HANDSHAKE \<Rightarrow> wait_handshake i s
      | SEND_ACK \<Rightarrow> s\<lparr>response := ACK, sie_fsm := IPD_DRAIN_TX\<rparr>
      | IPD_DRAIN_TX \<Rightarrow>
          if ipd s = ipd_max (detected_speed i) - 1 \<and> \<not> r_rdy (tx_fifo s)
          then s\<lparr>ipd := 0, sie_fsm := SIE_IDLE\<rparr>
          else s\<lparr>ipd := ipd s + 1\<rparr>)"

text \<open>The combinational signals the FSM drives, as functions of the cycle.\<close>

definition status_idle :: "sie_state \<Rightarrow> bool" where
  "status_idle s = (sie_fsm s = SIE_IDLE)"



definition issue_ack :: "sie_state \<Rightarrow> bool" where
  "issue_ack s = (sie_fsm s = SEND_ACK)"

definition tx_fifo_r_en :: "sie_input \<Rightarrow> sie_state \<Rightarrow> bool" where
  "tx_fifo_r_en i s =
     (case sie_fsm s of
        SEND_OUT_DATA \<Rightarrow> transmitter_stream_ready i \<and> r_rdy (tx_fifo s)
      | IPD_DRAIN_TX \<Rightarrow> r_rdy (tx_fifo s)
      | _ \<Rightarrow> False)"

definition rx_fifo_r_en :: "sie_input \<Rightarrow> sie_state \<Rightarrow> bool" where
  "rx_fifo_r_en i s =
     (if sie_fsm s = DRAIN_RX then r_rdy (rx_fifo s) else ctrl_rxs_ready i)"

definition rx_fifo_w_en :: "sie_input \<Rightarrow> sie_state \<Rightarrow> bool" where
  "rx_fifo_w_en i s =
     (sie_fsm s = WAIT_IN_DATA \<and> receiver_stream_next i \<and> w_rdy (rx_fifo s))"

text \<open>A received byte that finds the Rx FIFO full is not written.\<close>

definition rx_byte_dropped :: "sie_input \<Rightarrow> sie_state \<Rightarrow> bool" where
  "rx_byte_dropped i s =
     (sie_fsm s = WAIT_IN_DATA \<and> receiver_stream_next i \<and> \<not> w_rdy (rx_fifo s))"

text \<open>One clock cycle of the SIE: the FSM's registers and the two FIFOs.\<close>

definition sie_step :: "sie_input \<Rightarrow> sie_state \<Rightarrow> sie_state" where
  "sie_step i s =
     (sie_fsm_step i s)
       \<lparr>tx_fifo := fifo_next (ctrl_txs_valid i) (ctrl_txs_payload i) (tx_fifo_r_en i s) (tx_fifo s),
        rx_fifo := fifo_next (rx_fifo_w_en i s) (receiver_stream_payload i) (rx_fifo_r_en i s)
                     (rx_fifo s)\<rparr>"

definition sie_init :: sie_state where
  "sie_init =
     \<lparr>sie_fsm = SIE_RESET,
      xfer = \<lparr>xfer_start = False, xfer_type = SETUP, xfer_dev_addr = 0, xfer_ep_addr = 0,
               xfer_data_pid = DATA0\<rparr>,
      rx_len = 0, response = NONE, tx_len = 0, tx_byte_count = 0, ipd = 0,
      tx_fifo = [], rx_fifo = []\<rparr>"

fun sie_run :: "sie_input list \<Rightarrow> sie_state \<Rightarrow> sie_state" where
  "sie_run [] s = s"
| "sie_run (i # is) s = sie_run is (sie_step i s)"

text \<open>
  Bookkeeping over a run, for the transaction in progress: the number of bytes written to
  the Rx FIFO and the number of received bytes dropped since the last \<open>xfer.start\<close> taken
  in \<open>IDLE\<close>.
\<close>

fun rx_counts :: "sie_input list \<Rightarrow> sie_state \<Rightarrow> nat \<times> nat \<Rightarrow> nat \<times> nat" where
  "rx_counts [] s c = c"
| "rx_counts (i # is) s c =
     rx_counts is (sie_step i s)
       (if sie_fsm s = SIE_IDLE \<and> xfer_start (ctrl_xfer i) then (0, 0)
        else if rx_fifo_w_en i s then (Suc (fst c), snd c)
        else if rx_byte_dropped i s then (fst c, Suc (snd c))
        else c)"

text \<open>
  The number of cycles in which the handshake generator is told to send an ACK, up to the
  return of the FSM to \<open>IDLE\<close> (or the end of the inputs).
\<close>

fun acks_until_idle :: "sie_input list \<Rightarrow> sie_state \<Rightarrow> nat" where
  "acks_until_idle [] s = 0"
| "acks_until_idle (i # is) s =
     (if sie_fsm s = SIE_IDLE then 0
      else (if issue_ack s then 1 else 0) + acks_until_idle is (sie_step i s))"

text \<open>Inputs for concrete runs: nothing asserted, the receive window open.\<close>

definition quiet :: sie_input where
  "quiet =
     \<lparr>reset_active = False, detected_speed = HIGH,
      ctrl_xfer = \<lparr>xfer_start = False, xfer_type = SETUP, xfer_dev_addr = 0, xfer_ep_addr = 0,
                    xfer_data_pid = DATA0\<rparr>,
      ctrl_txs_valid = False, ctrl_txs_payload = 0, ctrl_rxs_ready = False,
      sof_controller_txa = False, sof_controller_rxa = True,
      token_generator_i_ready = False, token_generator_txa = False,
      transmitter_stream_ready = False,
      receiver_stream_next = False, receiver_stream_payload = 0,
      receiver_ready_for_response = False, receiver_crc_mismatch = False,
      detected_ack = False, detected_nak = False, detected_stall = False\<rparr>"

text \<open>
  The cycles that take the SIE from reset to \<open>WAIT_IN_DATA\<close> of an IN transfer on address
  \<open>0x12\<close>, endpoint 1: reset released, \<open>xfer.start\<close>, Rx FIFO found empty, txa window open,
  token taken by the token generator, token sent.
\<close>

definition start_in :: "sie_input list" where
  "start_in =
     [quiet,
      quiet\<lparr>ctrl_xfer := \<lparr>xfer_start = True, xfer_type = IN, xfer_dev_addr = 0x12,
                            xfer_ep_addr = 1, xfer_data_pid = DATA0\<rparr>\<rparr>,
      quiet,
      quiet\<lparr>sof_controller_txa := True\<rparr>,
      quiet\<lparr>token_generator_i_ready := True\<rparr>,
      quiet\<lparr>token_generator_txa := True\<rparr>]"

text \<open>A received byte, and the cycles that end a transaction (the interpacket delay).\<close>

definition rx_byte :: "8 word \<Rightarrow> sie_input" where
  "rx_byte b = quiet\<lparr>receiver_stream_next := True, receiver_stream_payload := b\<rparr>"

text \<open>A run in which 65 bytes arrive while nothing reads the Rx FIFO, and the receiver
  then reports the packet complete.\<close>

definition overflow_run :: "sie_input list" where
  "overflow_run =
     start_in @ replicate 65 (rx_byte 0xAA) @ [quiet\<lparr>receiver_ready_for_response := True\<rparr>]"

text \<open>
  The SIE together with the SOF controller, as \<open>USBSIE.elaborate\<close> wires them: the two
  windows come from the SOF controller, which is handed the detected speed, sees its token
  taken when the SIE lets SOFs through and the token generator is ready, and is held in
  reset while the bus reset is active.
\<close>

definition sof_init :: sof_state where
  "sof_init = \<lparr>sof_fsm = SOF_IDLE, sof_timer = 0, frame_number = 0, microframe_number = 0\<rparr>"


text \<open>
  The states of a transaction from which \<open>SEND_ACK\<close> is not passed before the FSM is idle
  again: \<open>WAIT_IN_DATA\<close> with \<open>RX_OVERFLOW\<close> latched, and the interpacket delay.
\<close>

definition ack_skipped :: "sie_state \<Rightarrow> bool" where
  "ack_skipped s =
     (sie_fsm s = WAIT_IN_DATA \<and> response s = RX_OVERFLOW
      \<or> sie_fsm s = IPD_DRAIN_TX \<or> sie_fsm s = SIE_IDLE)"

section \<open>Enumerator (guh/usbh/enumerator.py, USBHostEnumerator)\<close>

text \<open>The constructor's \<open>device_address\<close> and \<open>config_number\<close> (Python integers).\<close>

record enum_config =
  device_address :: int
  config_number :: int

text \<open>The setup packet ROM: five packets of 8 bytes, \<open>Memory(shape=unsigned(8), depth=40)\<close>.\<close>

definition setup_packets :: "enum_config \<Rightarrow> int list" where
  "setup_packets cfg =
     get_descriptor DescriptorTypes_DEVICE 0 0 8
     @ get_descriptor DescriptorTypes_DEVICE 0 0 18
     @ set_address (device_address cfg)
     @ get_descriptor DescriptorTypes_CONFIGURATION 0 0 512
     @ set_configuration (config_number cfg)"

text \<open>The states of the enumeration FSM, in the order of the source.\<close>

datatype enum_fsm_state =
  INIT_RESET | WAIT_SIE_READY
  | ENUM_GET_DESC_DEVICE_LOAD | ENUM_GET_DESC_DEVICE_XFER | ENUM_GET_DESC_DEVICE_WAIT_SETUP
  | ENUM_GET_DESC_DEVICE_IN | ENUM_GET_DESC_DEVICE_WAIT_IN
  | ENUM_GET_DESC_DEVICE_STATUS | ENUM_GET_DESC_DEVICE_WAIT_STATUS
  | ENUM_GET_DESC_DEVICE_SET_MPS | ENUM_GET_DESC_DEVICE_COMPLETE
  | ENUM_SET_ADDRESS_LOAD | ENUM_SET_ADDRESS_XFER | ENUM_SET_ADDRESS_WAIT_SETUP
  | ENUM_SET_ADDRESS_STATUS | ENUM_SET_ADDRESS_WAIT_STATUS | ENUM_SET_ADDRESS_UPDATE_ADDR
  | ENUM_GET_DESC_DEVICE_FULL_LOAD | ENUM_GET_DESC_DEVICE_FULL_XFER
  | ENUM_GET_DESC_DEVICE_FULL_WAIT_SETUP
  | ENUM_GET_DESC_DEVICE_FULL_IN | ENUM_GET_DESC_DEVICE_FULL_WAIT_IN
  | ENUM_GET_DESC_DEVICE_FULL_STATUS | ENUM_GET_DESC_DEVICE_FULL_WAIT_STATUS
  | ENUM_GET_DESC_DEVICE_FULL_COMPLETE
  | ENUM_GET_DESC_CONFIG_LOAD | ENUM_GET_DESC_CONFIG_XFER | ENUM_GET_DESC_CONFIG_WAIT_SETUP
  | ENUM_GET_DESC_CONFIG_IN | ENUM_GET_DESC_CONFIG_WAIT_IN
  | ENUM_GET_DESC_CONFIG_STATUS | ENUM_GET_DESC_CONFIG_WAIT_STATUS
  | ENUM_GET_DESC_CONFIG_COMPLETE
  | ENUM_SET_CONFIG_LOAD | ENUM_SET_CONFIG_XFER | ENUM_SET_CONFIG_WAIT_SETUP
  | ENUM_SET_CONFIG_STATUS | ENUM_SET_CONFIG_WAIT_STATUS
  | ENUMERATION_COMPLETE | ENUM_IDLE

text \<open>
  The registers of the enumerator (\<open>enum_retry\<close> is \<open>Signal(range(4))\<close>, two bits;
  \<open>setup_byte_ix\<close> is \<open>Signal(range(8))\<close>, three bits).
\<close>

record enum_state =
  enum_fsm :: enum_fsm_state
  current_dev_addr :: "7 word"
  enum_retry :: "2 word"
  reset_triggered :: bool
  setup_byte_ix :: "3 word"
  max_packet_size :: "8 word"
  last_packet_byte :: "8 word"
  enumerated :: bool

definition enum_init :: enum_state where
  "enum_init =
     \<lparr>enum_fsm = INIT_RESET, current_dev_addr = 0, enum_retry = 0, reset_triggered = False,
      setup_byte_ix = 0, max_packet_size = 64, last_packet_byte = 0, enumerated = False\<rparr>"

text \<open>
  What the enumerator reads in one cycle: the status and the streams of the SIE's control
  surface, and the class driver's side of the pass-through.
\<close>

record enum_input =
  sie_detected_speed :: USBHostSpeed
  sie_idle :: bool
  sie_response :: TransferResponse
  sie_rx_len :: "8 word"
  sie_sof_frame :: "11 word"
  sie_rxs_valid :: bool
  sie_rxs_payload :: "8 word"
  sie_txs_ready :: bool
  drv_xfer :: Transfer
  drv_bus_reset :: bool
  drv_txs_valid :: bool
  drv_txs_payload :: "8 word"
  drv_rxs_ready :: bool

text \<open>What the enumerator drives towards the SIE and the descriptor parser.\<close>

record enum_output =
  o_bus_reset :: bool
  o_xfer :: Transfer
  o_txs_valid :: bool
  o_txs_payload :: "8 word"
  o_rxs_ready :: bool
  o_desc_stream_active :: bool

subsection \<open>The state generators\<close>

text \<open>
  Each \<open>make_..._state(s)\<close> of the source becomes a function from the generator's
  arguments to the effect of the generated state on the registers. \<open>retry_sig\<close> is always
  \<open>enum_retry\<close> and is handed over together with \<open>retry_from\<close>; the model takes
  \<open>retry_from\<close> as an option and reads \<open>retry_sig is not None\<close> off it.
\<close>

definition load_setup_state :: "enum_fsm_state \<Rightarrow> enum_input \<Rightarrow> enum_state \<Rightarrow> enum_state" where
  "load_setup_state next_state i s =
     (if sie_txs_ready i then
        (if setup_byte_ix s = 7 then s\<lparr>setup_byte_ix := 0, enum_fsm := next_state\<rparr>
         else s\<lparr>setup_byte_ix := setup_byte_ix s + 1\<rparr>)
      else s)"

definition setup_xfer_state :: "enum_fsm_state \<Rightarrow> enum_input \<Rightarrow> enum_state \<Rightarrow> enum_state" where
  "setup_xfer_state next_state i s = (if sie_idle i then s\<lparr>enum_fsm := next_state\<rparr> else s)"

definition wait_ack_state ::
  "enum_fsm_state \<Rightarrow> enum_fsm_state \<Rightarrow> enum_fsm_state option \<Rightarrow> enum_input \<Rightarrow> enum_state
   \<Rightarrow> enum_state" where
  "wait_ack_state on_ack on_error retry_from i s =
     (if sie_idle i then
        (if sie_response i = ACK then
           (case retry_from of
              Some r \<Rightarrow> s\<lparr>enum_retry := 0, enum_fsm := on_ack\<rparr>
            | None \<Rightarrow> s\<lparr>enum_fsm := on_ack\<rparr>)
         else if sie_response i = NAK \<or> sie_response i = TIMEOUT then
           (case retry_from of
              Some r \<Rightarrow>
                if enum_retry s \<ge> 3 then s\<lparr>enum_retry := 0, enum_fsm := on_error\<rparr>
                else s\<lparr>enum_retry := enum_retry s + 1, enum_fsm := r\<rparr>
            | None \<Rightarrow> s\<lparr>enum_fsm := on_error\<rparr>)
         else s)
      else s)"

text \<open>\<open>make_in_data_states\<close>: the state that issues the IN token, and the state that waits.\<close>

definition in_data_load_state :: "enum_fsm_state \<Rightarrow> enum_input \<Rightarrow> enum_state \<Rightarrow> enum_state" where
  "in_data_load_state wait_state i s = (if sie_idle i then s\<lparr>enum_fsm := wait_state\<rparr> else s)"

definition in_data_wait_state ::
  "enum_fsm_state \<Rightarrow> enum_fsm_state \<Rightarrow> enum_input \<Rightarrow> enum_state \<Rightarrow> enum_state" where
  "in_data_wait_state load_state next_state i s =
     (let s1 = (if sie_rxs_valid i then s\<lparr>last_packet_byte := sie_rxs_payload i\<rparr> else s)
      in if sie_idle i then
           (if sie_response i = ACK then s1\<lparr>enum_fsm := next_state\<rparr>
            else if sie_response i = NAK then s1\<lparr>enum_fsm := load_state\<rparr>
            else s1\<lparr>enum_fsm := next_state\<rparr>)
         else s1)"

text \<open>\<open>make_multi_packet_in_states\<close>: the state that issues the IN token, and the state
  that waits and decides whether another packet is asked for.\<close>

definition multi_packet_in_state :: "enum_fsm_state \<Rightarrow> enum_input \<Rightarrow> enum_state \<Rightarrow> enum_state" where
  "multi_packet_in_state wait_state i s = (if sie_idle i then s\<lparr>enum_fsm := wait_state\<rparr> else s)"

definition multi_packet_wait_state ::
  "enum_fsm_state \<Rightarrow> enum_fsm_state \<Rightarrow> enum_input \<Rightarrow> enum_state \<Rightarrow> enum_state" where
  "multi_packet_wait_state in_state next_state i s =
     (if sie_idle i then
        (if sie_response i = ACK then
           (if sie_rx_len i = max_packet_size s then s\<lparr>enum_fsm := in_state\<rparr>
            else s\<lparr>enum_fsm := next_state\<rparr>)
         else if sie_response i = NAK then s\<lparr>enum_fsm := in_state\<rparr>
         else s\<lparr>enum_fsm := next_state\<rparr>)
      else s)"

text \<open>\<open>make_status_phase_states\<close>: the state that issues the zero-length transfer, and
  the state that waits for its completion.\<close>

definition status_phase_state :: "enum_fsm_state \<Rightarrow> enum_input \<Rightarrow> enum_state \<Rightarrow> enum_state" where
  "status_phase_state wait_state i s = (if sie_idle i then s\<lparr>enum_fsm := wait_state\<rparr> else s)"

definition status_phase_wait_state ::
  "enum_fsm_state \<Rightarrow> enum_fsm_state \<Rightarrow> enum_fsm_state \<Rightarrow> enum_fsm_state \<Rightarrow> enum_input
   \<Rightarrow> enum_state \<Rightarrow> enum_state" where
  "status_phase_wait_state status_state wait_state next_state on_timeout i s =
     (if sie_idle i then
        (if sie_response i = ACK then s\<lparr>enum_fsm := next_state\<rparr>
         else if sie_response i = NAK then s\<lparr>enum_fsm := status_state\<rparr>
         else if sie_response i = TIMEOUT then s\<lparr>enum_fsm := on_timeout\<rparr>
         else s\<lparr>enum_fsm := wait_state\<rparr>)
      else s)"

subsection \<open>The FSM\<close>

definition SOF_DELAY_RDY :: "11 word" where
  "SOF_DELAY_RDY = 0x3f"

text \<open>One clock cycle of the enumerator's registers.\<close>

definition enum_step :: "enum_config \<Rightarrow> enum_input \<Rightarrow> enum_state \<Rightarrow> enum_state" where
  "enum_step cfg i s =
     (case enum_fsm s of
        INIT_RESET \<Rightarrow>
          (m_If (sie_detected_speed i \<noteq> UNKNOWN)
             (\<lambda>t. t\<lparr>enum_retry := 0, reset_triggered := False, enum_fsm := WAIT_SIE_READY\<rparr>)
           \<circ> m_If (\<not> reset_triggered s) (\<lambda>t. t\<lparr>reset_triggered := True\<rparr>)) s
      | WAIT_SIE_READY \<Rightarrow>
          if sie_idle i \<and> (sie_sof_frame i AND SOF_DELAY_RDY) = SOF_DELAY_RDY
          then s\<lparr>enum_fsm := ENUM_GET_DESC_DEVICE_LOAD\<rparr> else s
      | ENUM_GET_DESC_DEVICE_LOAD \<Rightarrow> load_setup_state ENUM_GET_DESC_DEVICE_XFER i s
      | ENUM_GET_DESC_DEVICE_XFER \<Rightarrow> setup_xfer_state ENUM_GET_DESC_DEVICE_WAIT_SETUP i s
      | ENUM_GET_DESC_DEVICE_WAIT_SETUP \<Rightarrow>
          wait_ack_state ENUM_GET_DESC_DEVICE_IN INIT_RESET (Some ENUM_GET_DESC_DEVICE_LOAD) i s
      | ENUM_GET_DESC_DEVICE_IN \<Rightarrow> in_data_load_state ENUM_GET_DESC_DEVICE_WAIT_IN i s
      | ENUM_GET_DESC_DEVICE_WAIT_IN \<Rightarrow>
          in_data_wait_state ENUM_GET_DESC_DEVICE_IN ENUM_GET_DESC_DEVICE_STATUS i s
      | ENUM_GET_DESC_DEVICE_STATUS \<Rightarrow>
          status_phase_state ENUM_GET_DESC_DEVICE_WAIT_STATUS i s
      | ENUM_GET_DESC_DEVICE_WAIT_STATUS \<Rightarrow>
          status_phase_wait_state ENUM_GET_DESC_DEVICE_STATUS ENUM_GET_DESC_DEVICE_WAIT_STATUS
            ENUM_GET_DESC_DEVICE_SET_MPS INIT_RESET i s
      | ENUM_GET_DESC_DEVICE_SET_MPS \<Rightarrow>
          s\<lparr>max_packet_size := last_packet_byte s, enum_fsm := ENUM_GET_DESC_DEVICE_COMPLETE\<rparr>
      | ENUM_GET_DESC_DEVICE_COMPLETE \<Rightarrow> s\<lparr>enum_retry := 0, enum_fsm := ENUM_SET_ADDRESS_LOAD\<rparr>
      | ENUM_SET_ADDRESS_LOAD \<Rightarrow> load_setup_state ENUM_SET_ADDRESS_XFER i s
      | ENUM_SET_ADDRESS_XFER \<Rightarrow> setup_xfer_state ENUM_SET_ADDRESS_WAIT_SETUP i s
      | ENUM_SET_ADDRESS_WAIT_SETUP \<Rightarrow>
          wait_ack_state ENUM_SET_ADDRESS_STATUS INIT_RESET None i s
      | ENUM_SET_ADDRESS_STATUS \<Rightarrow> status_phase_state ENUM_SET_ADDRESS_WAIT_STATUS i s
      | ENUM_SET_ADDRESS_WAIT_STATUS \<Rightarrow>
          status_phase_wait_state ENUM_SET_ADDRESS_STATUS ENUM_SET_ADDRESS_WAIT_STATUS
            ENUM_SET_ADDRESS_UPDATE_ADDR INIT_RESET i s
      | ENUM_SET_ADDRESS_UPDATE_ADDR \<Rightarrow>
          s\<lparr>current_dev_addr := of_int (device_address cfg), enum_retry := 0,
            enum_fsm := ENUM_GET_DESC_DEVICE_FULL_LOAD\<rparr>
      | ENUM_GET_DESC_DEVICE_FULL_LOAD \<Rightarrow> load_setup_state ENUM_GET_DESC_DEVICE_FULL_XFER i s
      | ENUM_GET_DESC_DEVICE_FULL_XFER \<Rightarrow>
          setup_xfer_state ENUM_GET_DESC_DEVICE_FULL_WAIT_SETUP i s
      | ENUM_GET_DESC_DEVICE_FULL_WAIT_SETUP \<Rightarrow>
          wait_ack_state ENUM_GET_DESC_DEVICE_FULL_IN INIT_RESET
            (Some ENUM_GET_DESC_DEVICE_FULL_LOAD) i s
      | ENUM_GET_DESC_DEVICE_FULL_IN \<Rightarrow>
          multi_packet_in_state ENUM_GET_DESC_DEVICE_FULL_WAIT_IN i s
      | ENUM_GET_DESC_DEVICE_FULL_WAIT_IN \<Rightarrow>
          multi_packet_wait_state ENUM_GET_DESC_DEVICE_FULL_IN ENUM_GET_DESC_DEVICE_FULL_STATUS i s
      | ENUM_GET_DESC_DEVICE_FULL_STATUS \<Rightarrow>
          status_phase_state ENUM_GET_DESC_DEVICE_FULL_WAIT_STATUS i s
      | ENUM_GET_DESC_DEVICE_FULL_WAIT_STATUS \<Rightarrow>
          status_phase_wait_state ENUM_GET_DESC_DEVICE_FULL_STATUS
            ENUM_GET_DESC_DEVICE_FULL_WAIT_STATUS ENUM_GET_DESC_DEVICE_FULL_COMPLETE INIT_RESET i s
      | ENUM_GET_DESC_DEVICE_FULL_COMPLETE \<Rightarrow>
          s\<lparr>enum_retry := 0, enum_fsm := ENUM_GET_DESC_CONFIG_LOAD\<rparr>
      | ENUM_GET_DESC_CONFIG_LOAD \<Rightarrow> load_setup_state ENUM_GET_DESC_CONFIG_XFER i s
      | ENUM_GET_DESC_CONFIG_XFER \<Rightarrow> setup_xfer_state ENUM_GET_DESC_CONFIG_WAIT_SETUP i s
      | ENUM_GET_DESC_CONFIG_WAIT_SETUP \<Rightarrow>
          wait_ack_state ENUM_GET_DESC_CONFIG_IN INIT_RESET (Some ENUM_GET_DESC_CONFIG_LOAD) i s
      | ENUM_GET_DESC_CONFIG_IN \<Rightarrow> multi_packet_in_state ENUM_GET_DESC_CONFIG_WAIT_IN i s
      | ENUM_GET_DESC_CONFIG_WAIT_IN \<Rightarrow>
          multi_packet_wait_state ENUM_GET_DESC_CONFIG_IN ENUM_GET_DESC_CONFIG_STATUS i s
      | ENUM_GET_DESC_CONFIG_STATUS \<Rightarrow>
          status_phase_state ENUM_GET_DESC_CONFIG_WAIT_STATUS i s
      | ENUM_GET_DESC_CONFIG_WAIT_STATUS \<Rightarrow>
          status_phase_wait_state ENUM_GET_DESC_CONFIG_STATUS ENUM_GET_DESC_CONFIG_WAIT_STATUS
            ENUM_GET_DESC_CONFIG_COMPLETE INIT_RESET i s
      | ENUM_GET_DESC_CONFIG_COMPLETE \<Rightarrow> s\<lparr>enum_retry := 0, enum_fsm := ENUM_SET_CONFIG_LOAD\<rparr>
      | ENUM_SET_CONFIG_LOAD \<Rightarrow> load_setup_state ENUM_SET_CONFIG_XFER i s
      | ENUM_SET_CONFIG_XFER \<Rightarrow> setup_xfer_state ENUM_SET_CONFIG_WAIT_SETUP i s
      | ENUM_SET_CONFIG_WAIT_SETUP \<Rightarrow>
          wait_ack_state ENUM_SET_CONFIG_STATUS INIT_RESET None i s
      | ENUM_SET_CONFIG_STATUS \<Rightarrow> status_phase_state ENUM_SET_CONFIG_WAIT_STATUS i s
      | ENUM_SET_CONFIG_WAIT_STATUS \<Rightarrow>
          status_phase_wait_state ENUM_SET_CONFIG_STATUS ENUM_SET_CONFIG_WAIT_STATUS
            ENUMERATION_COMPLETE INIT_RESET i s
      | ENUMERATION_COMPLETE \<Rightarrow> s\<lparr>enumerated := True, enum_fsm := ENUM_IDLE\<rparr>
      | ENUM_IDLE \<Rightarrow> s)"

fun enum_run :: "enum_config \<Rightarrow> enum_input list \<Rightarrow> enum_state \<Rightarrow> enum_state" where
  "enum_run cfg [] s = s"
| "enum_run cfg (i # is) s = enum_run cfg is (enum_step cfg i s)"

subsection \<open>The signals driven in each state\<close>

text \<open>
  Outside the states that assign them the outputs are zero, or, once \<open>enumerated\<close> is
  set, the class driver's side of the control surface.
\<close>

definition no_xfer :: Transfer where
  "no_xfer = \<lparr>xfer_start = False, xfer_type = SETUP, xfer_dev_addr = 0, xfer_ep_addr = 0,
               xfer_data_pid = DATA0\<rparr>"

definition default_out :: "enum_input \<Rightarrow> enum_state \<Rightarrow> enum_output" where
  "default_out i s =
     (if enumerated s then
        \<lparr>o_bus_reset = drv_bus_reset i, o_xfer = drv_xfer i, o_txs_valid = drv_txs_valid i,
         o_txs_payload = drv_txs_payload i, o_rxs_ready = drv_rxs_ready i,
         o_desc_stream_active = False\<rparr>
      else
        \<lparr>o_bus_reset = False, o_xfer = no_xfer, o_txs_valid = False, o_txs_payload = 0,
         o_rxs_ready = False, o_desc_stream_active = False\<rparr>)"

definition start_xfer :: "TransferType \<Rightarrow> DataPID \<Rightarrow> 7 word \<Rightarrow> Transfer" where
  "start_xfer ty pid addr =
     \<lparr>xfer_start = True, xfer_type = ty, xfer_dev_addr = addr, xfer_ep_addr = 0,
      xfer_data_pid = pid\<rparr>"

definition load_setup_out ::
  "enum_config \<Rightarrow> nat \<Rightarrow> enum_state \<Rightarrow> enum_output \<Rightarrow> enum_output" where
  "load_setup_out cfg setup_offset s d =
     d\<lparr>o_txs_payload := of_int (setup_packets cfg ! (setup_offset + unat (setup_byte_ix s))),
       o_txs_valid := True\<rparr>"

definition setup_xfer_out :: "7 word \<Rightarrow> enum_input \<Rightarrow> enum_output \<Rightarrow> enum_output" where
  "setup_xfer_out addr i d = m_If (sie_idle i) (\<lambda>d. d\<lparr>o_xfer := start_xfer SETUP DATA0 addr\<rparr>) d"

definition in_data_load_out :: "7 word \<Rightarrow> enum_input \<Rightarrow> enum_output \<Rightarrow> enum_output" where
  "in_data_load_out addr i d = m_If (sie_idle i) (\<lambda>d. d\<lparr>o_xfer := start_xfer IN DATA1 addr\<rparr>) d"

definition in_data_wait_out :: "enum_output \<Rightarrow> enum_output" where
  "in_data_wait_out d = d\<lparr>o_rxs_ready := True\<rparr>"

definition multi_packet_in_out ::
  "7 word \<Rightarrow> bool \<Rightarrow> enum_input \<Rightarrow> enum_output \<Rightarrow> enum_output" where
  "multi_packet_in_out addr emit_desc_stream i d =
     (m_If (sie_idle i) (\<lambda>d. d\<lparr>o_xfer := start_xfer IN DATA1 addr\<rparr>)
      \<circ> m_If emit_desc_stream (\<lambda>d. d\<lparr>o_desc_stream_active := True\<rparr>)) d"

definition multi_packet_wait_out :: "bool \<Rightarrow> enum_output \<Rightarrow> enum_output" where
  "multi_packet_wait_out emit_desc_stream d =
     (m_If emit_desc_stream (\<lambda>d. d\<lparr>o_desc_stream_active := True\<rparr>) d)\<lparr>o_rxs_ready := True\<rparr>"

definition status_phase_out :: "7 word \<Rightarrow> bool \<Rightarrow> enum_input \<Rightarrow> enum_output \<Rightarrow> enum_output" where
  "status_phase_out addr direction_in i d =
     m_If (sie_idle i)
       (\<lambda>d. d\<lparr>o_xfer := start_xfer (if direction_in then IN else OUT) DATA1 addr\<rparr>) d"

definition enum_out :: "enum_config \<Rightarrow> enum_input \<Rightarrow> enum_state \<Rightarrow> enum_output" where
  "enum_out cfg i s =
     (let d = default_out i s; a = current_dev_addr s in
      case enum_fsm s of
        INIT_RESET \<Rightarrow> m_If (\<not> reset_triggered s) (\<lambda>d. d\<lparr>o_bus_reset := True\<rparr>) d
      | ENUM_GET_DESC_DEVICE_LOAD \<Rightarrow> load_setup_out cfg 0 s d
      | ENUM_GET_DESC_DEVICE_XFER \<Rightarrow> setup_xfer_out 0 i d
      | ENUM_GET_DESC_DEVICE_IN \<Rightarrow> in_data_load_out 0 i d
      | ENUM_GET_DESC_DEVICE_WAIT_IN \<Rightarrow> in_data_wait_out d
      | ENUM_GET_DESC_DEVICE_STATUS \<Rightarrow> status_phase_out 0 False i d
      | ENUM_SET_ADDRESS_LOAD \<Rightarrow> load_setup_out cfg 16 s d
      | ENUM_SET_ADDRESS_XFER \<Rightarrow> setup_xfer_out 0 i d
      | ENUM_SET_ADDRESS_STATUS \<Rightarrow> status_phase_out 0 True i d
      | ENUM_GET_DESC_DEVICE_FULL_LOAD \<Rightarrow> load_setup_out cfg 8 s d
      | ENUM_GET_DESC_DEVICE_FULL_XFER \<Rightarrow> setup_xfer_out a i d
      | ENUM_GET_DESC_DEVICE_FULL_IN \<Rightarrow> multi_packet_in_out a False i d
      | ENUM_GET_DESC_DEVICE_FULL_WAIT_IN \<Rightarrow> multi_packet_wait_out False d
      | ENUM_GET_DESC_DEVICE_FULL_STATUS \<Rightarrow> status_phase_out a False i d
      | ENUM_GET_DESC_CONFIG_LOAD \<Rightarrow> load_setup_out cfg 24 s d
      | ENUM_GET_DESC_CONFIG_XFER \<Rightarrow> setup_xfer_out a i d
      | ENUM_GET_DESC_CONFIG_IN \<Rightarrow> multi_packet_in_out a True i d
      | ENUM_GET_DESC_CONFIG_WAIT_IN \<Rightarrow> multi_packet_wait_out True d
      | ENUM_GET_DESC_CONFIG_STATUS \<Rightarrow> status_phase_out a False i d
      | ENUM_SET_CONFIG_LOAD \<Rightarrow> load_setup_out cfg 32 s d
      | ENUM_SET_CONFIG_XFER \<Rightarrow> setup_xfer_out a i d
      | ENUM_SET_CONFIG_STATUS \<Rightarrow> status_phase_out a True i d
      | _ \<Rightarrow> d)"

text \<open>Inputs for concrete runs: a full-speed device, the SIE idle with a given response.\<close>

definition sie_done :: "TransferResponse \<Rightarrow> enum_input" where
  "sie_done r =
     \<lparr>sie_detected_speed = FULL, sie_idle = True, sie_response = r, sie_rx_len = 0,
      sie_sof_frame = 0x3f, sie_rxs_valid = False, sie_rxs_payload = 0, sie_txs_ready = True,
      drv_xfer = no_xfer, drv_bus_reset = False, drv_txs_valid = False, drv_txs_payload = 0,
      drv_rxs_ready = False\<rparr>"

definition default_config :: enum_config where
  "default_config = \<lparr>device_address = 0x12, config_number = 1\<rparr>"

text \<open>
  The cycles of a successful control transfer without data phase retries, as seen by the
  enumerator: eight bytes loaded, SETUP started and acknowledged, and so on.
\<close>

definition load_and_setup :: "enum_input list" where
  "load_and_setup = replicate 8 (sie_done NONE) @ [sie_done NONE]"

definition stage1_run :: "enum_input list" where
  "stage1_run =
     [sie_done NONE, sie_done NONE] @ load_and_setup
     @ [sie_done ACK, sie_done ACK, (sie_done ACK)\<lparr>sie_rxs_valid := True, sie_rxs_payload := 64\<rparr>,
        sie_done ACK, sie_done ACK, sie_done ACK, sie_done ACK]"

definition stage2_run :: "enum_input list" where
  "stage2_run = load_and_setup @ [sie_done ACK, sie_done ACK, sie_done ACK, sie_done ACK]"

definition stage3_setup_run :: "enum_input list" where
  "stage3_setup_run = load_and_setup @ [sie_done ACK]"

section \<open>Descriptor parser (guh/usbh/descriptor.py, USBDescriptorParser)\<close>

text \<open>\<open>EndpointFilter\<close>: which endpoint directions to extract.\<close>

datatype EndpointFilter = FILTER_IN | FILTER_OUT | FILTER_IN_AND_OUT

text \<open>\<open>EndpointTransferType\<close> of guh/protocol/descriptors.py, with its two-bit values.\<close>

datatype EndpointTransferType = CONTROL | ISOCHRONOUS | BULK | INTERRUPT

fun EndpointTransferType_value :: "EndpointTransferType \<Rightarrow> 8 word" where
  "EndpointTransferType_value CONTROL = 0"
| "EndpointTransferType_value ISOCHRONOUS = 1"
| "EndpointTransferType_value BULK = 2"
| "EndpointTransferType_value INTERRUPT = 3"

text \<open>
  The values of \<open>DescriptorType\<close>, \<open>InterfaceClass\<close>, \<open>HIDSubClass\<close> and \<open>HIDProtocol\<close> that
  are used below; the signals of these enum shapes are 8 bits wide and take any byte.
\<close>

definition DescriptorType_INTERFACE :: "8 word" where
  "DescriptorType_INTERFACE = 0x4"

definition DescriptorType_ENDPOINT :: "8 word" where
  "DescriptorType_ENDPOINT = 0x5"

definition InterfaceClass_HID :: "8 word" where
  "InterfaceClass_HID = 0x03"

definition HIDSubClass_BOOT_INTERFACE :: "8 word" where
  "HIDSubClass_BOOT_INTERFACE = 0x01"

definition HIDProtocol_KEYBOARD :: "8 word" where
  "HIDProtocol_KEYBOARD = 0x01"

text \<open>The constructor's arguments.\<close>

record parser_config =
  endpoint_filter :: EndpointFilter
  transfer_type :: EndpointTransferType
  interface_class :: "8 word"
  interface_subclass :: "8 word option"
  interface_protocol :: "8 word option"

definition want_in :: "parser_config \<Rightarrow> bool" where
  "want_in cfg = (endpoint_filter cfg = FILTER_IN \<or> endpoint_filter cfg = FILTER_IN_AND_OUT)"

definition want_out :: "parser_config \<Rightarrow> bool" where
  "want_out cfg = (endpoint_filter cfg = FILTER_OUT \<or> endpoint_filter cfg = FILTER_IN_AND_OUT)"

datatype parser_fsm_state = INIT | GET_LEN | IN_DESCRIPTOR | DONE

text \<open>
  The registers of the parser and its latched output \<open>o\<close>. A register that the
  configuration does not create (\<open>iface_subclass\<close>, \<open>found_out\<close>, \<open>o.o_endp\<close>, ...) is never
  written and keeps its initial value.
\<close>

record parser_state =
  parser_fsm :: parser_fsm_state
  bLength :: "8 word"
  offset :: "8 word"
  desc_type :: "8 word"
  iface_class :: "8 word"
  iface_subclass :: "8 word"
  iface_protocol :: "8 word"
  in_matching_interface :: bool
  endp_addr :: "8 word"
  endp_attr :: "8 word"
  found_in :: bool
  found_out :: bool
  o_i_endp :: "8 word"
  o_o_endp :: "8 word"
  o_valid :: bool

definition parser_init :: parser_state where
  "parser_init =
     \<lparr>parser_fsm = INIT, bLength = 0, offset = 0, desc_type = 0, iface_class = 0,
      iface_subclass = 0, iface_protocol = 0, in_matching_interface = False, endp_addr = 0,
      endp_attr = 0, found_in = False, found_out = False, o_i_endp = 0, o_o_endp = 0,
      o_valid = False\<rparr>"

record parser_input =
  enable :: bool
  i_valid :: bool
  i_payload :: "8 word"

text \<open>\<open>i.ready\<close>: one by default, zero in \<open>INIT\<close> only.\<close>

definition i_ready :: "parser_state \<Rightarrow> bool" where
  "i_ready s = (parser_fsm s \<noteq> INIT)"

text \<open>The fields of \<open>EndpointAddress\<close> and \<open>EndpointAttributes\<close>.\<close>

definition endp_number :: "8 word \<Rightarrow> 8 word" where
  "endp_number a = a AND 0xF"

definition endp_direction_in :: "8 word \<Rightarrow> bool" where
  "endp_direction_in a = bit a 7"

definition attr_transfer_type :: "8 word \<Rightarrow> 8 word" where
  "attr_transfer_type a = a AND 0x3"

text \<open>The combinational conditions at the end of a descriptor.\<close>

definition interface_match :: "parser_config \<Rightarrow> parser_state \<Rightarrow> bool" where
  "interface_match cfg s =
     (iface_class s = interface_class cfg
      \<and> (case interface_subclass cfg of None \<Rightarrow> True | Some c \<Rightarrow> iface_subclass s = c)
      \<and> (case interface_protocol cfg of None \<Rightarrow> True | Some p \<Rightarrow> iface_protocol s = p))"

definition type_match :: "parser_config \<Rightarrow> parser_state \<Rightarrow> bool" where
  "type_match cfg s =
     (attr_transfer_type (endp_attr s) = EndpointTransferType_value (transfer_type cfg))"

definition capturing_in :: "parser_config \<Rightarrow> parser_state \<Rightarrow> bool" where
  "capturing_in cfg s =
     (desc_type s \<noteq> DescriptorType_INTERFACE \<and> desc_type s = DescriptorType_ENDPOINT
      \<and> in_matching_interface s \<and> want_in cfg
      \<and> type_match cfg s \<and> endp_direction_in (endp_addr s) \<and> \<not> found_in s)"

definition capturing_out :: "parser_config \<Rightarrow> parser_state \<Rightarrow> bool" where
  "capturing_out cfg s =
     (desc_type s \<noteq> DescriptorType_INTERFACE \<and> desc_type s = DescriptorType_ENDPOINT
      \<and> in_matching_interface s \<and> want_out cfg
      \<and> type_match cfg s \<and> \<not> endp_direction_in (endp_addr s) \<and> \<not> found_out s)"

definition all_found :: "parser_config \<Rightarrow> parser_state \<Rightarrow> bool" where
  "all_found cfg s =
     ((if want_in cfg then found_in s \<or> capturing_in cfg s else True)
      \<and> (if want_out cfg then found_out s \<or> capturing_out cfg s else True))"

text \<open>
  \<open>offset == (bLength - 2)\<close>: the subtraction of two unsigned signals is signed in
  Amaranth, so for \<open>bLength\<close> below 2 the right-hand side is negative and no offset equals
  it.
\<close>

definition at_descriptor_end :: "parser_state \<Rightarrow> bool" where
  "at_descriptor_end s = (int (unat (offset s)) = int (unat (bLength s)) - 2)"

text \<open>The \<open>m.Switch(offset)\<close> of state \<open>IN-DESCRIPTOR\<close>.\<close>

definition switch_offset :: "parser_config \<Rightarrow> 8 word \<Rightarrow> parser_state \<Rightarrow> parser_state \<Rightarrow> parser_state" where
  "switch_offset cfg payload s t =
     (if offset s = 0 then t\<lparr>desc_type := payload\<rparr>
      else if offset s = 1 then
        m_If (desc_type s = DescriptorType_ENDPOINT) (\<lambda>t. t\<lparr>endp_addr := payload\<rparr>) t
      else if offset s = 2 then
        m_If (desc_type s = DescriptorType_ENDPOINT) (\<lambda>t. t\<lparr>endp_attr := payload\<rparr>) t
      else if offset s = 4 then
        m_If (desc_type s = DescriptorType_INTERFACE) (\<lambda>t. t\<lparr>iface_class := payload\<rparr>) t
      else if offset s = 5 \<and> interface_subclass cfg \<noteq> None then
        m_If (desc_type s = DescriptorType_INTERFACE) (\<lambda>t. t\<lparr>iface_subclass := payload\<rparr>) t
      else if offset s = 6 \<and> interface_protocol cfg \<noteq> None then
        m_If (desc_type s = DescriptorType_INTERFACE) (\<lambda>t. t\<lparr>iface_protocol := payload\<rparr>) t
      else t)"

text \<open>The block under \<open>with m.If(offset == (bLength-2))\<close>.\<close>

definition descriptor_end :: "parser_config \<Rightarrow> parser_state \<Rightarrow> parser_state \<Rightarrow> parser_state" where
  "descriptor_end cfg s =
     (\<lambda>t. if all_found cfg s then t\<lparr>o_valid := True, parser_fsm := DONE\<rparr>
          else t\<lparr>parser_fsm := GET_LEN\<rparr>)
     \<circ> m_If (capturing_out cfg s) (\<lambda>t. t\<lparr>o_o_endp := endp_addr s, found_out := True\<rparr>)
     \<circ> m_If (capturing_in cfg s) (\<lambda>t. t\<lparr>o_i_endp := endp_addr s, found_in := True\<rparr>)
     \<circ> m_If (desc_type s = DescriptorType_INTERFACE)
         (\<lambda>t. t\<lparr>in_matching_interface := interface_match cfg s\<rparr>)"

definition in_descriptor :: "parser_config \<Rightarrow> 8 word \<Rightarrow> parser_state \<Rightarrow> parser_state" where
  "in_descriptor cfg payload s =
     (m_If (at_descriptor_end s) (descriptor_end cfg s)
      \<circ> (\<lambda>t. t\<lparr>offset := offset s + 1\<rparr>)
      \<circ> switch_offset cfg payload s) s"

text \<open>One clock cycle of the parser.\<close>

definition parser_step :: "parser_config \<Rightarrow> parser_input \<Rightarrow> parser_state \<Rightarrow> parser_state" where
  "parser_step cfg i s =
     (case parser_fsm s of
        INIT \<Rightarrow> if enable i then s\<lparr>parser_fsm := GET_LEN\<rparr> else s
      | GET_LEN \<Rightarrow>
          if i_valid i then s\<lparr>offset := 0, bLength := i_payload i, parser_fsm := IN_DESCRIPTOR\<rparr>
          else s
      | IN_DESCRIPTOR \<Rightarrow> if i_valid i then in_descriptor cfg (i_payload i) s else s
      | DONE \<Rightarrow> s)"

fun parser_run :: "parser_config \<Rightarrow> parser_input list \<Rightarrow> parser_state \<Rightarrow> parser_state" where
  "parser_run cfg [] s = s"
| "parser_run cfg (i # is) s = parser_run cfg is (parser_step cfg i s)"

text \<open>A byte offered on \<open>i\<close> with the parser enabled, and a stream of such bytes.\<close>

definition put :: "8 word \<Rightarrow> parser_input" where
  "put b = \<lparr>enable = True, i_valid = True, i_payload = b\<rparr>"

definition feed :: "parser_config \<Rightarrow> 8 word list \<Rightarrow> parser_state \<Rightarrow> parser_state" where
  "feed cfg bs s = parser_run cfg (map put bs) s"

text \<open>The wanted directions that have been captured (the registers \<open>found_in\<close>, \<open>found_out\<close>).\<close>

definition all_captured :: "parser_config \<Rightarrow> parser_state \<Rightarrow> bool" where
  "all_captured cfg s =
     ((if want_in cfg then found_in s else True) \<and> (if want_out cfg then found_out s else True))"

text \<open>The keyboard engine's parser, and the parser after the enable cycle.\<close>

definition keyboard_parser :: parser_config where
  "keyboard_parser =
     \<lparr>endpoint_filter = FILTER_IN, transfer_type = INTERRUPT,
      interface_class = InterfaceClass_HID,
      interface_subclass = Some HIDSubClass_BOOT_INTERFACE,
      interface_protocol = Some HIDProtocol_KEYBOARD\<rparr>"

definition parser_enabled :: parser_state where
  "parser_enabled = parser_init\<lparr>parser_fsm := GET_LEN\<rparr>"

text \<open>A configuration descriptor of a boot keyboard: configuration, interface, HID
  and endpoint descriptor (interrupt IN, endpoint 1).\<close>

definition keyboard_descriptor :: "8 word list" where
  "keyboard_descriptor =
     [9, 2, 34, 0, 1, 1, 0, 0xA0, 50,
      9, 4, 0, 0, 1, 3, 1, 1, 0,
      9, 0x21, 0x11, 1, 0, 1, 0x22, 65, 0,
      7, 5, 0x81, 3, 8, 0, 10]"

text \<open>The invariant of the parser: \<open>o.valid\<close> and the state \<open>DONE\<close> go with the capture of
  all wanted endpoints.\<close>

definition parser_inv :: "parser_config \<Rightarrow> parser_state \<Rightarrow> bool" where
  "parser_inv cfg s =
     (all_captured cfg s = (parser_fsm s = DONE) \<and> o_valid s = (parser_fsm s = DONE))"

section \<open>Keyboard engine (guh/engines/keyboard.py, USBKeyboardHost)\<close>

text \<open>\<open>KeyboardReport\<close>: the eight bytes of a boot protocol report.\<close>

record KeyboardReport =
  modifiers :: "8 word"
  reserved :: "8 word"
  key0 :: "8 word"
  key1 :: "8 word"
  key2 :: "8 word"
  key3 :: "8 word"
  key4 :: "8 word"
  key5 :: "8 word"

definition KEYBOARD_REPORT_SIZE :: nat where
  "KEYBOARD_REPORT_SIZE = 8"

definition WATCHDOG_CYCLES :: "32 word" where
  "WATCHDOG_CYCLES = 3 * 60000000"

datatype kbd_fsm_state = WAIT_ENUMERATION | KBD_POLL | EMIT_REPORT

text \<open>The registers of the engine; \<open>report_bytes\<close> is the array of eight byte registers.\<close>

record kbd_state =
  kbd_fsm :: kbd_fsm_state
  watchdog :: "32 word"
  pid :: DataPID
  l_sof_frame :: "11 word"
  rx_byte_count :: "4 word"
  report_bytes :: "8 word list"

definition kbd_init :: kbd_state where
  "kbd_init =
     \<lparr>kbd_fsm = WAIT_ENUMERATION, watchdog = 0, pid = DATA0, l_sof_frame = 0,
      rx_byte_count = 0, report_bytes = replicate 8 0\<rparr>"

text \<open>
  What the engine reads in one cycle: the enumerator's status, the parser's output, the
  SIE's status and receive stream behind the enumerator's pass-through, and the consumer's
  \<open>o_report.ready\<close>.
\<close>

record kbd_input =
  kbd_enumerated :: bool
  kbd_parser_valid :: bool
  kbd_i_endp :: "8 word"
  kbd_dev_addr :: "7 word"
  kbd_idle :: bool
  kbd_response :: TransferResponse
  kbd_sof_frame :: "11 word"
  kbd_rxs_valid :: bool
  kbd_rxs_payload :: "8 word"
  kbd_report_ready :: bool

definition watchdog_expired :: "kbd_state \<Rightarrow> bool" where
  "watchdog_expired s = (watchdog s = WATCHDOG_CYCLES - 1)"

text \<open>\<open>ctrl.rxs.ready\<close> is driven in \<open>KBD-POLL\<close> only.\<close>

definition kbd_rxs_ready :: "kbd_state \<Rightarrow> bool" where
  "kbd_rxs_ready s = (kbd_fsm s = KBD_POLL)"

definition poll_now :: "kbd_input \<Rightarrow> kbd_state \<Rightarrow> bool" where
  "poll_now i s = (kbd_idle i \<and> kbd_sof_frame i \<noteq> l_sof_frame s)"

text \<open>The transfer started in \<open>KBD-POLL\<close> when \<open>poll_now\<close> holds.\<close>

definition kbd_xfer :: "kbd_input \<Rightarrow> kbd_state \<Rightarrow> Transfer" where
  "kbd_xfer i s =
     (if kbd_fsm s = KBD_POLL \<and> poll_now i s then
        \<lparr>xfer_start = True, xfer_type = IN, xfer_dev_addr = kbd_dev_addr i,
         xfer_ep_addr = ucast (endp_number (kbd_i_endp i)), xfer_data_pid = pid s\<rparr>
      else no_xfer)"

text \<open>The output stream \<open>o_report\<close>.\<close>

definition o_report_valid :: "kbd_state \<Rightarrow> bool" where
  "o_report_valid s = (kbd_fsm s = EMIT_REPORT)"

definition o_report_payload :: "kbd_state \<Rightarrow> KeyboardReport" where
  "o_report_payload s =
     (if kbd_fsm s = EMIT_REPORT then
        \<lparr>modifiers = report_bytes s ! 0, reserved = report_bytes s ! 1,
         key0 = report_bytes s ! 2, key1 = report_bytes s ! 3, key2 = report_bytes s ! 4,
         key3 = report_bytes s ! 5, key4 = report_bytes s ! 6, key5 = report_bytes s ! 7\<rparr>
      else
        \<lparr>modifiers = 0, reserved = 0, key0 = 0, key1 = 0, key2 = 0, key3 = 0, key4 = 0,
         key5 = 0\<rparr>)"

text \<open>The receive path, outside the FSM: bytes are collected into \<open>report_bytes\<close>.\<close>

definition rx_path :: "kbd_input \<Rightarrow> kbd_state \<Rightarrow> kbd_state \<Rightarrow> kbd_state" where
  "rx_path i s =
     m_If (kbd_rxs_valid i \<and> kbd_rxs_ready s)
       (\<lambda>t. (m_If (unat (rx_byte_count s) < KEYBOARD_REPORT_SIZE)
               (\<lambda>t. t\<lparr>report_bytes := (report_bytes s)[unat (rx_byte_count s) := kbd_rxs_payload i]\<rparr>) t)
             \<lparr>rx_byte_count := rx_byte_count s + 1\<rparr>)"

text \<open>The FSM of the engine.\<close>

definition kbd_fsm_step :: "kbd_input \<Rightarrow> kbd_state \<Rightarrow> kbd_state \<Rightarrow> kbd_state" where
  "kbd_fsm_step i s t =
     (case kbd_fsm s of
        WAIT_ENUMERATION \<Rightarrow>
          m_If (kbd_enumerated i \<and> kbd_parser_valid i)
            (\<lambda>t. t\<lparr>watchdog := 0, kbd_fsm := KBD_POLL\<rparr>) t
      | KBD_POLL \<Rightarrow>
          if poll_now i s then t\<lparr>l_sof_frame := kbd_sof_frame i, rx_byte_count := 0\<rparr>
          else if kbd_response i = ACK then
            m_If (unat (rx_byte_count s) \<ge> KEYBOARD_REPORT_SIZE) (\<lambda>t. t\<lparr>kbd_fsm := EMIT_REPORT\<rparr>)
              (t\<lparr>pid := (if pid s = DATA1 then DATA0 else DATA1), watchdog := 0\<rparr>)
          else if kbd_response i = NAK then t\<lparr>watchdog := 0\<rparr>
          else t
      | EMIT_REPORT \<Rightarrow> m_If (kbd_report_ready i) (\<lambda>t. t\<lparr>kbd_fsm := KBD_POLL\<rparr>) t)"

text \<open>
  One clock cycle: the watchdog counts, the receive path and the FSM assign in the order
  of the source; the expired watchdog resets every register (\<open>ResetInserter\<close>).
\<close>

definition kbd_step :: "kbd_input \<Rightarrow> kbd_state \<Rightarrow> kbd_state" where
  "kbd_step i s =
     (if watchdog_expired s then kbd_init
      else (kbd_fsm_step i s \<circ> rx_path i s) (s\<lparr>watchdog := watchdog s + 1\<rparr>))"

fun kbd_run :: "kbd_input list \<Rightarrow> kbd_state \<Rightarrow> kbd_state" where
  "kbd_run [] s = s"
| "kbd_run (i # is) s = kbd_run is (kbd_step i s)"

text \<open>The reports presented on \<open>o_report\<close> and taken by the consumer during a run.\<close>

fun reports_emitted :: "kbd_input list \<Rightarrow> kbd_state \<Rightarrow> KeyboardReport list" where
  "reports_emitted [] s = []"
| "reports_emitted (i # is) s =
     (if o_report_valid s \<and> kbd_report_ready i then [o_report_payload s] else [])
     @ reports_emitted is (kbd_step i s)"

text \<open>
  Inputs for concrete runs: the device enumerated at address \<open>0x12\<close> with interrupt
  endpoint 1; the SIE busy or idle with a response in a given frame; a received byte.
\<close>

definition kbd_in :: "bool \<Rightarrow> TransferResponse \<Rightarrow> 11 word \<Rightarrow> kbd_input" where
  "kbd_in idle r frame =
     \<lparr>kbd_enumerated = True, kbd_parser_valid = True, kbd_i_endp = 0x81, kbd_dev_addr = 0x12,
      kbd_idle = idle, kbd_response = r, kbd_sof_frame = frame, kbd_rxs_valid = False,
      kbd_rxs_payload = 0, kbd_report_ready = True\<rparr>"

definition kbd_byte :: "11 word \<Rightarrow> 8 word \<Rightarrow> kbd_input" where
  "kbd_byte frame b = (kbd_in False NONE frame)\<lparr>kbd_rxs_valid := True, kbd_rxs_payload := b\<rparr>"

text \<open>A poll in the given frame that is answered by the given report and acknowledged,
  and the cycle in which the consumer takes the report.\<close>

definition acked_report :: "11 word \<Rightarrow> 8 word list \<Rightarrow> kbd_input list" where
  "acked_report frame bs =
     [kbd_in True NONE frame] @ map (kbd_byte frame) bs @ [kbd_in True ACK frame,
      kbd_in True ACK frame]"

section \<open>Keyboard example (examples/keyboard_host.py, USBKeyboardHostExample)\<close>

datatype example_fsm_state = EX_IDLE | EX_CHECK | EX_SEND

text \<open>The registers of the example that consumes \<open>o_report\<close> and prints characters.\<close>

record example_state =
  example_fsm :: example_fsm_state
  prev_key0 :: "8 word"
  current_report :: KeyboardReport

text \<open>
  Its inputs: the engine's \<open>o_report\<close>, the looked-up character \<open>ascii_char\<close> (the lookup
  memories are left out) and the UART's \<open>stream.ready\<close>.
\<close>

record example_input =
  ex_report_valid :: bool
  ex_report_payload :: KeyboardReport
  ex_ascii_char :: "8 word"
  ex_uart_ready :: bool

definition example_step :: "example_input \<Rightarrow> example_state \<Rightarrow> example_state" where
  "example_step i s =
     (case example_fsm s of
        EX_IDLE \<Rightarrow>
          if ex_report_valid i
          then s\<lparr>current_report := ex_report_payload i, example_fsm := EX_CHECK\<rparr> else s
      | EX_CHECK \<Rightarrow>
          if key0 (current_report s) \<noteq> prev_key0 s \<and> key0 (current_report s) \<noteq> 0
          then s\<lparr>prev_key0 := key0 (current_report s), example_fsm := EX_SEND\<rparr>
          else s\<lparr>prev_key0 := key0 (current_report s), example_fsm := EX_IDLE\<rparr>
      | EX_SEND \<Rightarrow>
          if ex_ascii_char i \<noteq> 0 then
            (if ex_uart_ready i then s\<lparr>example_fsm := EX_IDLE\<rparr> else s)
          else s\<lparr>example_fsm := EX_IDLE\<rparr>)"

text \<open>\<open>uart.stream.valid\<close>: a character is offered to the UART in \<open>SEND\<close> only.\<close>

definition uart_valid :: "example_input \<Rightarrow> example_state \<Rightarrow> bool" where
  "uart_valid i s = (example_fsm s = EX_SEND \<and> ex_ascii_char i \<noteq> 0)"

section \<open>SCSI bulk-only transport (guh/engines/msc.py, SCSIBulkHost)\<close>
























section \<open>Theorems\<close>

text \<open>
  C2. The setup-packet constructors serialise to 8 little-endian bytes:
  GET_DESCRIPTOR(DEVICE, 0, 0, 0x40) is 80 06 00 01 00 00 40 00, SET_ADDRESS(0x12) is
  00 05 12 00 00 00 00 00 and SET_CONFIGURATION(1) is 00 09 01 00 00 00 00 00.
\<close>

theorem setup_payload_bytes:
  "get_descriptor DescriptorTypes_DEVICE 0 0 0x40 = [0x80, 0x06, 0x00, 0x01, 0x00, 0x00, 0x40, 0x00]
   \<and> set_address 0x12 = [0x00, 0x05, 0x12, 0x00, 0x00, 0x00, 0x00, 0x00]
   \<and> set_configuration 1 = [0x00, 0x09, 0x01, 0x00, 0x00, 0x00, 0x00, 0x00]"
  by (simp add: get_descriptor_def set_address_def set_configuration_def dict_to_bytes_def
      as_value_init_def DescriptorTypes_DEVICE_def upt_rec)

subsection \<open>SOF controller\<close>

lemma sof_run_append: "sof_run speed (xs @ ys) s = sof_run speed ys (sof_run speed xs s)"
  by (induction xs arbitrary: s) auto

lemma sof_tokens_append:
  "sof_tokens speed (xs @ ys) s = sof_tokens speed xs s @ sof_tokens speed ys (sof_run speed xs s)"
  by (induction xs arbitrary: s) auto

lemma sof_period_cases: "sof_period speed = 7500 \<or> sof_period speed = 60000"
  by (simp add: sof_period_def sof_cycles_def)

lemma sof_cycles_unat: "unat (sof_cycles speed - 1) = sof_period speed - 1"
  by (simp add: sof_period_def sof_cycles_def)

lemma timer_suc: "unat (t :: 16 word) < 65535 \<Longrightarrow> unat (t + 1) = Suc (unat t)"
  by (simp add: unat_word_ariths)

lemma sof_idle_count:
  "sof_fsm s = SOF_IDLE \<Longrightarrow> unat (sof_timer s) + length rs \<le> sof_period speed - 1 \<Longrightarrow>
   sof_run speed rs s = s\<lparr>sof_timer := sof_timer s + of_nat (length rs)\<rparr>
   \<and> sof_tokens speed rs s = []"
proof (induction rs arbitrary: s)
  case Nil
  then show ?case by simp
next
  case (Cons r rs)
  have lt: "unat (sof_timer s) < sof_period speed - 1" using Cons.prems by simp
  then have ne: "sof_timer s \<noteq> sof_cycles speed - 1"
    using sof_cycles_unat [of speed] by auto
  have small: "unat (sof_timer s) < 65535"
    using lt sof_period_cases [of speed] by auto
  have st: "sof_step speed r s = s\<lparr>sof_timer := sof_timer s + 1\<rparr>"
    using Cons.prems(1) ne by (simp add: sof_step_def)
  have "unat (sof_timer s + 1) + length rs \<le> sof_period speed - 1"
    using Cons.prems(2) timer_suc [OF small] by simp
  with Cons.IH [of "s\<lparr>sof_timer := sof_timer s + 1\<rparr>"] Cons.prems(1) st
  show ?case by (simp add: sof_o_valid_def add.assoc)
qed

lemma sof_send_wait:
  "sof_fsm s = SOF_SEND \<Longrightarrow> \<forall>r \<in> set rs. \<not> r \<Longrightarrow>
   sof_run speed rs s = s\<lparr>sof_timer := sof_timer s + of_nat (length rs)\<rparr>
   \<and> sof_tokens speed rs s = []"
proof (induction rs arbitrary: s)
  case Nil
  then show ?case by simp
next
  case (Cons r rs)
  have st: "sof_step speed r s = s\<lparr>sof_timer := sof_timer s + 1\<rparr>"
    using Cons.prems by (simp add: sof_step_def)
  have "sof_fsm (s\<lparr>sof_timer := sof_timer s + 1\<rparr>) = SOF_SEND" "\<forall>r \<in> set rs. \<not> r"
    using Cons.prems by auto
  from Cons.IH [OF this] st Cons.prems
  show ?case by (simp add: add.assoc sof_o_valid_def)
qed

lemma sof_first_ready:
  assumes "k < length rs" "rs ! k"
  shows "\<exists>j \<le> k. rs ! j \<and> (\<forall>i < j. \<not> rs ! i)"
proof -
  define j where "j = (LEAST j. rs ! j)"
  have "rs ! j" unfolding j_def using assms(2) by (rule LeastI)
  moreover have "j \<le> k" unfolding j_def using assms(2) by (rule Least_le)
  moreover have "\<forall>i < j. \<not> rs ! i" unfolding j_def using not_less_Least by blast
  ultimately show ?thesis by blast
qed

text \<open>After a reset the first SOF is raised after exactly one period.\<close>

lemma sof_first_emission:
  assumes "length rs = sof_period speed"
  shows "sof_tokens speed rs sof_init = []
    \<and> sof_run speed rs sof_init =
        (if speed = HIGH then sof_init\<lparr>sof_fsm := SOF_SEND, microframe_number := 1\<rparr>
         else sof_init\<lparr>sof_fsm := SOF_SEND, frame_number := 1\<rparr>)"
proof -
  have pos: "0 < sof_period speed" using sof_period_cases [of speed] by auto
  with assms obtain r ys where rs: "rs = ys @ [r]"
    by (cases rs rule: rev_cases) auto
  define m where "m = sof_period speed - 1"
  have ly: "length ys = m" using assms rs by (simp add: m_def)
  have "unat (sof_timer sof_init) + length ys \<le> sof_period speed - 1"
    using ly by (simp add: sof_init_def m_def)
  from sof_idle_count [OF _ this]
  have c: "sof_run speed ys sof_init = sof_init\<lparr>sof_timer := of_nat m\<rparr>"
    "sof_tokens speed ys sof_init = []"
    using ly by (simp_all add: sof_init_def)
  have last_t: "(of_nat m :: 16 word) = sof_cycles speed - 1"
    by (simp add: m_def sof_period_def sof_cycles_def)
  have "sof_step speed r (sof_init\<lparr>sof_timer := of_nat m\<rparr>) =
        (if speed = HIGH then sof_init\<lparr>sof_fsm := SOF_SEND, microframe_number := 1\<rparr>
         else sof_init\<lparr>sof_fsm := SOF_SEND, frame_number := 1\<rparr>)"
    unfolding last_t by (simp add: sof_step_def sof_init_def)
  moreover have "\<not> sof_o_valid (sof_init\<lparr>sof_timer := of_nat m\<rparr>)"
    by (simp add: sof_o_valid_def sof_init_def)
  ultimately show ?thesis
    unfolding rs by (simp add: sof_run_append sof_tokens_append c)
qed

text \<open>
  C7. The SOF controller emits one SOF token per period of 60000 cycles (7500 at HIGH speed)
  provided that the token generator takes the token before the last cycle of the period:
  from the cycle in which a SOF is raised (FSM in \<open>SEND\<close>, timer zero), when \<open>o.ready\<close> is
  seen in a cycle before the last one of the period, exactly one token (carrying the
  current frame number) is handed over during the period, and after exactly one period the
  controller raises the next SOF. At any speed other than HIGH the 11-bit frame number has
  then advanced by one (modulo 2048); at HIGH speed the 3-bit microframe counter has
  advanced by one, and the frame number has advanced exactly when the microframe counter
  wrapped from 7 to 0.
\<close>

theorem sof_one_token_per_period:
  assumes send: "sof_fsm s = SOF_SEND" and t0: "sof_timer s = 0"
    and len: "length rs = sof_period speed"
    and acc: "\<exists>k < sof_period speed - 1. rs ! k"
  shows "sof_tokens speed rs s = [frame_number s]
    \<and> sof_run speed rs s =
        (if speed = HIGH then
           (if microframe_number s = 7 then
              s\<lparr>sof_fsm := SOF_SEND, sof_timer := 0, microframe_number := 0,
                frame_number := frame_number s + 1\<rparr>
            else s\<lparr>sof_fsm := SOF_SEND, sof_timer := 0,
                microframe_number := microframe_number s + 1\<rparr>)
         else s\<lparr>sof_fsm := SOF_SEND, sof_timer := 0, frame_number := frame_number s + 1\<rparr>)"
proof -
  let ?P = "sof_period speed"
  from acc obtain k where k: "k < ?P - 1" "rs ! k" by blast
  with len have "k < length rs" by simp
  from sof_first_ready [OF this k(2)] obtain j where
    j: "j \<le> k" "rs ! j" "\<forall>i < j. \<not> rs ! i" by blast
  have jP: "j < ?P - 1" using j(1) k(1) by simp
  define n where "n = ?P - 1 - Suc j"
  define xs where "xs = take j rs"
  define ys where "ys = take n (drop (Suc j) rs)"
  define d where "d = drop (Suc j) rs"
  define z where "z = d ! n"
  have Ppos: "Suc j + n = ?P - 1" using jP by (simp add: n_def)
  have P60: "?P \<le> 60000" using sof_period_cases [of speed] by auto
  have ld: "length d = Suc n" using len jP by (simp add: d_def n_def)
  have "drop n d = [z]"
    using ld by (simp add: z_def list_eq_iff_nth_eq)
  then have d_eq: "d = ys @ [z]"
    using append_take_drop_id [of n d] by (simp add: ys_def d_def)
  have "rs = take j rs @ rs ! j # drop (Suc j) rs"
    using jP len by (intro id_take_nth_drop) simp
  then have rs_eq: "rs = xs @ [True] @ ys @ [z]"
    using j(2) d_eq by (simp add: xs_def d_def)
  have lx: "length xs = j" using len jP by (simp add: xs_def)
  have ly: "length ys = n" using len jP by (simp add: ys_def n_def)
  have xs_false: "\<forall>r \<in> set xs. \<not> r"
    using j(3) lx by (auto simp: xs_def in_set_conv_nth)
  define m where "m = ?P - 1"
  define s3 where "s3 = s\<lparr>sof_fsm := SOF_IDLE, sof_timer := of_nat m\<rparr>"
  define s1 where "s1 = s\<lparr>sof_timer := of_nat j\<rparr>"
  have r1: "sof_run speed xs s = s1" "sof_tokens speed xs s = []"
    using sof_send_wait [OF send xs_false, of speed] t0 lx by (simp_all add: s1_def)
  define s2 where "s2 = s\<lparr>sof_fsm := SOF_IDLE, sof_timer := of_nat (Suc j)\<rparr>"
  have r2: "sof_step speed True s1 = s2" "sof_o_valid s1" "frame_number s1 = frame_number s"
    using send by (simp_all add: s1_def s2_def sof_step_def sof_o_valid_def)
  have uj: "unat (of_nat (Suc j) :: 16 word) = Suc j"
    using jP P60 by (simp add: unat_of_nat del: of_nat_Suc)
  have "unat (sof_timer s2) + length ys \<le> ?P - 1"
    using uj ly Ppos by (simp add: s2_def del: of_nat_Suc)
  from sof_idle_count [OF _ this]
  have "sof_run speed ys s2 = s2\<lparr>sof_timer := of_nat (Suc j + n)\<rparr>" "sof_tokens speed ys s2 = []"
    using ly by (simp_all add: s2_def del: of_nat_Suc flip: of_nat_add)
  then have r3: "sof_run speed ys s2 = s3" "sof_tokens speed ys s2 = []"
    unfolding Ppos by (simp_all add: s2_def s3_def m_def)
  have last_t: "(of_nat m :: 16 word) = sof_cycles speed - 1"
    by (simp add: m_def sof_period_def sof_cycles_def)
  have r4: "sof_step speed z s3 =
        (if speed = HIGH then
           (if microframe_number s = 7 then
              s\<lparr>sof_fsm := SOF_SEND, sof_timer := 0, microframe_number := 0,
                frame_number := frame_number s + 1\<rparr>
            else s\<lparr>sof_fsm := SOF_SEND, sof_timer := 0,
                microframe_number := microframe_number s + 1\<rparr>)
         else s\<lparr>sof_fsm := SOF_SEND, sof_timer := 0, frame_number := frame_number s + 1\<rparr>)"
    unfolding s3_def last_t by (simp add: sof_step_def)
  have v3: "\<not> sof_o_valid s3" by (simp add: s3_def sof_o_valid_def)
  have run: "sof_run speed rs s = sof_step speed z s3"
    unfolding rs_eq by (simp add: sof_run_append r1 r2 r3)
  have tok: "sof_tokens speed rs s = [frame_number s]"
    unfolding rs_eq by (simp add: sof_run_append sof_tokens_append r1 r2 r3 v3)
  show ?thesis
    unfolding run tok r4 by simp
qed


theorem sof_one_token_per_period_witness:
  "sof_tokens FULL (replicate 60000 True)
      \<lparr>sof_fsm = SOF_SEND, sof_timer = 0, frame_number = 2047, microframe_number = 0\<rparr> = [2047]
   \<and> sof_run FULL (replicate 60000 True)
      \<lparr>sof_fsm = SOF_SEND, sof_timer = 0, frame_number = 2047, microframe_number = 0\<rparr>
     = \<lparr>sof_fsm = SOF_SEND, sof_timer = 0, frame_number = 0, microframe_number = 0\<rparr>
   \<and> sof_tokens HIGH (replicate 7500 True)
      \<lparr>sof_fsm = SOF_SEND, sof_timer = 0, frame_number = 5, microframe_number = 7\<rparr> = [5]
   \<and> sof_run HIGH (replicate 7500 True)
      \<lparr>sof_fsm = SOF_SEND, sof_timer = 0, frame_number = 5, microframe_number = 7\<rparr>
     = \<lparr>sof_fsm = SOF_SEND, sof_timer = 0, frame_number = 6, microframe_number = 0\<rparr>
   \<and> sof_run HIGH (replicate 7500 True)
      \<lparr>sof_fsm = SOF_SEND, sof_timer = 0, frame_number = 5, microframe_number = 6\<rparr>
     = \<lparr>sof_fsm = SOF_SEND, sof_timer = 0, frame_number = 5, microframe_number = 7\<rparr>"
proof -
  have lf: "length (replicate 60000 True) = sof_period FULL"
    and lh: "length (replicate 7500 True) = sof_period HIGH"
    by (simp_all add: sof_period_def sof_cycles_def)
  have af: "\<exists>k < sof_period FULL - 1. replicate 60000 True ! k"
    and ah: "\<exists>k < sof_period HIGH - 1. replicate 7500 True ! k"
    by (rule exI [of _ 0], simp add: sof_period_def sof_cycles_def)+
  show ?thesis
    using sof_one_token_per_period [OF _ _ lf af,
        of "\<lparr>sof_fsm = SOF_SEND, sof_timer = 0, frame_number = 2047, microframe_number = 0\<rparr>"]
      sof_one_token_per_period [OF _ _ lh ah,
        of "\<lparr>sof_fsm = SOF_SEND, sof_timer = 0, frame_number = 5, microframe_number = 7\<rparr>"]
      sof_one_token_per_period [OF _ _ lh ah,
        of "\<lparr>sof_fsm = SOF_SEND, sof_timer = 0, frame_number = 5, microframe_number = 6\<rparr>"]
    by simp
qed

text \<open>
  C7, without the condition. When the token generator never takes the token, no SOF token is
  emitted at all: 120000 cycles after a reset at FULL speed the controller is still in
  \<open>SEND\<close> with its first token, the timer at 60000 and the frame number at 1. And when the
  token is taken only in the last cycle of a period (here at HIGH speed, timer 7499), the
  controller is in \<open>IDLE\<close> with the timer at 7500 when the period ends, so no SOF is raised
  7500 cycles after the previous one.
\<close>

theorem sof_refused_counterexample:
  "sof_tokens FULL (replicate 120000 False) sof_init = []
   \<and> sof_run FULL (replicate 120000 False) sof_init
       = \<lparr>sof_fsm = SOF_SEND, sof_timer = 60000, frame_number = 1, microframe_number = 0\<rparr>
   \<and> sof_tokens HIGH (replicate 7499 False @ [True])
         \<lparr>sof_fsm = SOF_SEND, sof_timer = 0, frame_number = 0, microframe_number = 0\<rparr> = [0]
   \<and> sof_run HIGH (replicate 7499 False @ [True])
         \<lparr>sof_fsm = SOF_SEND, sof_timer = 0, frame_number = 0, microframe_number = 0\<rparr>
       = \<lparr>sof_fsm = SOF_IDLE, sof_timer = 7500, frame_number = 0, microframe_number = 0\<rparr>"
proof -
  define s1 where "s1 = sof_init\<lparr>sof_fsm := SOF_SEND, frame_number := 1\<rparr>"
  define h where
    "h = \<lparr>sof_fsm = SOF_SEND, sof_timer = 0, frame_number = 0, microframe_number = (0 :: 3 word)\<rparr>"
  have r: "replicate 120000 False = replicate 60000 False @ replicate 60000 False"
    by (simp flip: replicate_add)
  have "length (replicate 60000 False) = sof_period FULL"
    by (simp add: sof_period_def sof_cycles_def)
  from sof_first_emission [OF this]
  have a: "sof_tokens FULL (replicate 60000 False) sof_init = []"
    "sof_run FULL (replicate 60000 False) sof_init = s1"
    by (simp_all add: s1_def)
  have "sof_fsm s1 = SOF_SEND" "\<forall>r \<in> set (replicate 60000 False). \<not> r"
    by (simp_all add: s1_def)
  from sof_send_wait [OF this, of FULL]
  have b: "sof_run FULL (replicate 60000 False) s1 = s1\<lparr>sof_timer := 60000\<rparr>"
    "sof_tokens FULL (replicate 60000 False) s1 = []"
    by (simp_all add: s1_def sof_init_def)
  have "sof_fsm h = SOF_SEND" "\<forall>r \<in> set (replicate 7499 False). \<not> r"
    by (simp_all add: h_def)
  from sof_send_wait [OF this, of HIGH]
  have c: "sof_run HIGH (replicate 7499 False) h = h\<lparr>sof_timer := 7499\<rparr>"
    "sof_tokens HIGH (replicate 7499 False) h = []"
    by (simp_all add: h_def)
  show ?thesis
    unfolding r h_def [symmetric]
    by (simp add: sof_run_append sof_tokens_append a b c)
      (simp add: s1_def sof_init_def h_def sof_step_def sof_o_valid_def sof_cycles_def)
qed

subsection \<open>Serial interface engine\<close>

lemma sie_run_append: "sie_run (xs @ ys) s = sie_run ys (sie_run xs s)"
  by (induction xs arbitrary: s) auto

lemma rx_counts_append:
  "rx_counts (xs @ ys) s c = rx_counts ys (sie_run xs s) (rx_counts xs s c)"
  by (induction xs arbitrary: s c) auto

lemma sie_step_fsm [simp]: "sie_fsm (sie_step i s) = sie_fsm (sie_fsm_step i s)"
  and sie_step_response [simp]: "response (sie_step i s) = response (sie_fsm_step i s)"
  and sie_step_rx_len [simp]: "rx_len (sie_step i s) = rx_len (sie_fsm_step i s)"
  by (simp_all add: sie_step_def)

lemma wait_in_data_rx_len:
  "rx_len (wait_in_data i s) = (if receiver_stream_next i then rx_len s + 1 else rx_len s)"
  by (simp add: wait_in_data_def m_If_def)

lemma wait_in_data_response:
  "response (wait_in_data i s) =
     (if \<not> sof_controller_rxa i then TIMEOUT
      else if detected_stall i then STALL
      else if detected_nak i then NAK
      else if receiver_crc_mismatch i then CRC_ERROR
      else if receiver_stream_next i \<and> \<not> w_rdy (rx_fifo s) then RX_OVERFLOW
      else response s)"
  by (simp add: wait_in_data_def m_If_def)

lemma wait_in_data_fsm:
  "sie_fsm (wait_in_data i s) =
     (if \<not> sof_controller_rxa i \<or> detected_stall i \<or> detected_nak i \<or> receiver_crc_mismatch i
      then IPD_DRAIN_TX
      else if receiver_ready_for_response i
      then (if response s = RX_OVERFLOW then IPD_DRAIN_TX else SEND_ACK)
      else sie_fsm s)"
  by (simp add: wait_in_data_def m_If_def)

lemma wait_handshake_rx_len: "rx_len (wait_handshake i s) = rx_len s"
  by (simp add: wait_handshake_def m_If_def)

lemma wait_handshake_response:
  "response (wait_handshake i s) =
     (if \<not> sof_controller_rxa i then TIMEOUT
      else if detected_stall i then STALL
      else if detected_nak i then NAK
      else if detected_ack i then ACK
      else response s)"
  by (simp add: wait_handshake_def m_If_def)


lemma rx_len_step:
  "rx_len (sie_fsm_step i s) =
     (if sie_fsm s = SIE_IDLE \<and> xfer_start (ctrl_xfer i) then 0
      else if sie_fsm s = WAIT_IN_DATA \<and> receiver_stream_next i then rx_len s + 1
      else rx_len s)"
  by (cases "sie_fsm s")
    (simp_all add: sie_fsm_step_def wait_in_data_rx_len wait_handshake_rx_len)

lemma response_step:
  "response (sie_fsm_step i s) =
     (if sie_fsm s = SIE_IDLE \<and> xfer_start (ctrl_xfer i) then NONE
      else if sie_fsm s = WAIT_IN_DATA then response (wait_in_data i s)
      else if sie_fsm s = WAIT_HANDSHAKE then response (wait_handshake i s)
      else if sie_fsm s = SEND_ACK then ACK
      else response s)"
  by (cases "sie_fsm s") (simp_all add: sie_fsm_step_def)

lemma u8_suc_mod: "unat (w :: 8 word) = n mod 256 \<Longrightarrow> unat (w + 1) = Suc n mod 256"
  by (simp add: unat_word_ariths mod_Suc_eq)

lemma rx_len_invariant:
  "unat (rx_len s) = (fst c + snd c) mod 256 \<Longrightarrow>
   unat (rx_len (sie_run is s)) = (fst (rx_counts is s c) + snd (rx_counts is s c)) mod 256"
proof (induction "is" arbitrary: s c)
  case Nil
  then show ?case by simp
next
  case (Cons i "is")
  let ?c = "if sie_fsm s = SIE_IDLE \<and> xfer_start (ctrl_xfer i) then (0, 0)
        else if rx_fifo_w_en i s then (Suc (fst c), snd c)
        else if rx_byte_dropped i s then (fst c, Suc (snd c))
        else c"
  have "unat (rx_len (sie_step i s)) = (fst ?c + snd ?c) mod 256"
    using Cons.prems u8_suc_mod [of "rx_len s" "fst c + snd c"]
    by (auto simp: rx_len_step rx_fifo_w_en_def rx_byte_dropped_def)
  from Cons.IH [OF this] show ?case by simp
qed

lemma overflow_invariant:
  "(response s = RX_OVERFLOW \<longrightarrow> 0 < snd c) \<Longrightarrow>
   response (sie_run is s) = RX_OVERFLOW \<longrightarrow> 0 < snd (rx_counts is s c)"
proof (induction "is" arbitrary: s c)
  case Nil
  then show ?case by simp
next
  case (Cons i "is")
  let ?c = "if sie_fsm s = SIE_IDLE \<and> xfer_start (ctrl_xfer i) then (0, 0)
        else if rx_fifo_w_en i s then (Suc (fst c), snd c)
        else if rx_byte_dropped i s then (fst c, Suc (snd c))
        else c"
  have "response (sie_step i s) = RX_OVERFLOW \<longrightarrow> 0 < snd ?c"
    using Cons.prems
    by (auto simp: response_step wait_in_data_response wait_handshake_response
        rx_fifo_w_en_def rx_byte_dropped_def split: if_splits)
  from Cons.IH [OF this] show ?case by simp
qed

text \<open>
  C1 (as amended). \<open>status.rx_len\<close> is at most 255 and equals, modulo 256, the number of
  bytes received during the transaction: those written to the Rx FIFO and those dropped
  because it was full. It equals the number of bytes written when none was dropped and
  fewer than 256 were received.
\<close>

theorem rx_len_counts_received:
  "unat (rx_len (sie_run is sie_init)) \<le> 255
   \<and> unat (rx_len (sie_run is sie_init))
       = (fst (rx_counts is sie_init (0, 0)) + snd (rx_counts is sie_init (0, 0))) mod 256
   \<and> (snd (rx_counts is sie_init (0, 0)) = 0 \<and> fst (rx_counts is sie_init (0, 0)) < 256
        \<longrightarrow> unat (rx_len (sie_run is sie_init)) = fst (rx_counts is sie_init (0, 0)))"
proof -
  have le: "unat (rx_len (sie_run is sie_init)) \<le> 255"
    using unsigned_less [of "rx_len (sie_run is sie_init)", where 'a = nat] by simp
  have "unat (rx_len sie_init) = (fst (0 :: nat, 0 :: nat) + snd (0 :: nat, 0 :: nat)) mod 256"
    by (simp add: sie_init_def)
  from rx_len_invariant [OF this, of "is"]
  have eq: "unat (rx_len (sie_run is sie_init))
       = (fst (rx_counts is sie_init (0, 0)) + snd (rx_counts is sie_init (0, 0))) mod 256" .
  from le eq show ?thesis by simp
qed

theorem rx_len_counts_received_witness:
  "rx_counts (start_in @ [rx_byte 1, rx_byte 2, rx_byte 3]) sie_init (0, 0) = (3, 0)
   \<and> unat (rx_len (sie_run (start_in @ [rx_byte 1, rx_byte 2, rx_byte 3]) sie_init)) = 3"
proof -
  have c: "rx_counts (start_in @ [rx_byte 1, rx_byte 2, rx_byte 3]) sie_init (0, 0) = (3, 0)"
    by code_simp
  from rx_len_counts_received [of "start_in @ [rx_byte 1, rx_byte 2, rx_byte 3]"] c
  show ?thesis by simp
qed

text \<open>
  The claim as stated fails: with 65 bytes received and nothing reading the Rx FIFO, 64
  bytes are written, one is dropped, and \<open>rx_len\<close> is latched at 65 when the SIE is idle
  again.
\<close>

theorem rx_len_counterexample:
  "let is = overflow_run @ replicate 100 quiet; s = sie_run is sie_init in
     status_idle s \<and> response s = RX_OVERFLOW \<and> unat (rx_len s) = 65
     \<and> rx_counts is sie_init (0, 0) = (64, 1)
     \<and> unat (rx_len s) \<noteq> fst (rx_counts is sie_init (0, 0))"
  by code_simp

lemma fsm_step_wait_in_data:
  "sie_fsm s = WAIT_IN_DATA \<Longrightarrow> sie_fsm_step i s = wait_in_data i s"
  by (simp add: sie_fsm_step_def)

lemma dropped_byte_fifo:
  assumes "rx_byte_dropped i s"
  shows "rx_fifo (sie_step i s) = (if ctrl_rxs_ready i then tl (rx_fifo s) else rx_fifo s)"
proof -
  from assms have st: "sie_fsm s = WAIT_IN_DATA" and full: "length (rx_fifo s) = fifo_depth"
    by (simp_all add: rx_byte_dropped_def w_rdy_def)
  from full have "rx_fifo s \<noteq> []" by (auto simp: fifo_depth_def)
  with st full show ?thesis
    by (simp add: sie_step_def fifo_next_def rx_fifo_w_en_def rx_fifo_r_en_def w_rdy_def
        r_rdy_def)
qed

lemma dropped_byte_latch:
  assumes "rx_byte_dropped i s" "sof_controller_rxa i" "\<not> detected_stall i"
    "\<not> detected_nak i" "\<not> receiver_crc_mismatch i"
  shows "response (sie_step i s) = RX_OVERFLOW"
  using assms
  by (simp add: rx_byte_dropped_def fsm_step_wait_in_data wait_in_data_response)

lemma fsm_step_ipd:
  "sie_fsm s = IPD_DRAIN_TX \<Longrightarrow>
   sie_fsm (sie_fsm_step i s) = IPD_DRAIN_TX \<or> sie_fsm (sie_fsm_step i s) = SIE_IDLE"
  by (simp add: sie_fsm_step_def)

lemma ack_skipped_step:
  assumes "ack_skipped s" "sie_fsm s \<noteq> SIE_IDLE"
  shows "ack_skipped (sie_step i s)"
proof -
  from assms consider
    (w) "sie_fsm s = WAIT_IN_DATA" "response s = RX_OVERFLOW" | (d) "sie_fsm s = IPD_DRAIN_TX"
    by (auto simp: ack_skipped_def)
  then show ?thesis
  proof cases
    case w
    then show ?thesis
      by (simp add: ack_skipped_def fsm_step_wait_in_data wait_in_data_fsm
          wait_in_data_response)
  next
    case d
    from fsm_step_ipd [OF this, of i] show ?thesis
      by (auto simp: ack_skipped_def)
  qed
qed

lemma ack_skipped_no_ack: "ack_skipped s \<Longrightarrow> acks_until_idle is s = 0"
proof (induction "is" arbitrary: s)
  case Nil
  then show ?case by simp
next
  case (Cons i "is")
  show ?case
  proof (cases "sie_fsm s = SIE_IDLE")
    case True
    then show ?thesis by simp
  next
    case False
    from ack_skipped_step [OF Cons.prems False]
    have "acks_until_idle is (sie_step i s) = 0" by (rule Cons.IH)
    moreover from Cons.prems have "\<not> issue_ack s"
      by (auto simp: ack_skipped_def issue_ack_def)
    ultimately show ?thesis using False by simp
  qed
qed

lemma dropped_byte_no_ack:
  assumes "rx_byte_dropped i s" "\<not> receiver_ready_for_response i"
  shows "acks_until_idle (i # is) s = 0"
proof -
  from assms have st: "sie_fsm s = WAIT_IN_DATA" and nx: "receiver_stream_next i"
    and full: "\<not> w_rdy (rx_fifo s)"
    by (simp_all add: rx_byte_dropped_def)
  have "ack_skipped (sie_step i s)"
    using st nx full assms(2)
    by (simp add: ack_skipped_def fsm_step_wait_in_data wait_in_data_fsm
        wait_in_data_response)
  then have "acks_until_idle is (sie_step i s) = 0" by (rule ack_skipped_no_ack)
  with st show ?thesis by (simp add: issue_ack_def)
qed

lemma valid_packet_acked:
  assumes "sie_fsm s = WAIT_IN_DATA" "response s \<noteq> RX_OVERFLOW"
    "receiver_ready_for_response i" "sof_controller_rxa i" "\<not> detected_stall i"
    "\<not> detected_nak i" "\<not> receiver_crc_mismatch i"
  shows "issue_ack (sie_step i s) \<and> response (sie_step j (sie_step i s)) = ACK
    \<and> sie_fsm (sie_step j (sie_step i s)) = IPD_DRAIN_TX"
proof -
  have a: "sie_fsm (sie_step i s) = SEND_ACK"
    using assms by (simp add: fsm_step_wait_in_data wait_in_data_fsm)
  then have "issue_ack (sie_step i s)" by (simp add: issue_ack_def)
  moreover from a have "response (sie_step j (sie_step i s)) = ACK"
    "sie_fsm (sie_step j (sie_step i s)) = IPD_DRAIN_TX"
    by (simp_all add: sie_fsm_step_def)
  ultimately show ?thesis by simp
qed

lemma ipd_suc: "unat (w :: 10 word) < 1023 \<Longrightarrow> unat (w + 1) = Suc (unat w)"
  by (simp add: unat_word_ariths)

lemma ipd_max_unat: "unat (ipd_max sp - 1) = unat (ipd_max sp) - 1" "unat (ipd_max sp) \<le> 1000"
  "0 < unat (ipd_max sp)"
  by (simp_all add: ipd_max_def)

lemma ipd_drain_counts:
  assumes "sie_fsm s = IPD_DRAIN_TX" "tx_fifo s = []"
    "\<forall>i \<in> set is. \<not> ctrl_txs_valid i \<and> detected_speed i = sp"
    "unat (ipd s) + length is < unat (ipd_max sp)"
  shows "sie_fsm (sie_run is s) = IPD_DRAIN_TX \<and> tx_fifo (sie_run is s) = []
    \<and> unat (ipd (sie_run is s)) = unat (ipd s) + length is
    \<and> response (sie_run is s) = response s \<and> rx_len (sie_run is s) = rx_len s"
  using assms
proof (induction "is" arbitrary: s)
  case Nil
  then show ?case by simp
next
  case (Cons i "is")
  let ?t = "sie_step i s"
  have sp: "detected_speed i = sp" "\<not> ctrl_txs_valid i" using Cons.prems(3) by simp_all
  have lt: "unat (ipd s) < unat (ipd_max sp) - 1" using Cons.prems(4) by simp
  then have ne: "ipd s \<noteq> ipd_max sp - 1"
    using ipd_max_unat(1) [of sp] by auto
  have small: "unat (ipd s) < 1023" using lt ipd_max_unat(2) [of sp] by simp
  have t: "sie_fsm ?t = IPD_DRAIN_TX" "tx_fifo ?t = []" "unat (ipd ?t) = Suc (unat (ipd s))"
    "response ?t = response s" "rx_len ?t = rx_len s"
    using Cons.prems(1,2) sp ne ipd_suc [OF small]
    by (simp_all add: sie_step_def sie_fsm_step_def fifo_next_def tx_fifo_r_en_def r_rdy_def)
  have "\<forall>i \<in> set is. \<not> ctrl_txs_valid i \<and> detected_speed i = sp"
    "unat (ipd ?t) + length is < unat (ipd_max sp)"
    using Cons.prems(3,4) t(3) by simp_all
  from Cons.IH [OF t(1,2) this] t show ?case by simp
qed

text \<open>
  The end of a transaction: from the start of the interpacket delay, with the Tx FIFO
  empty and nothing written to it, the SIE is idle again after \<open>ipd_max\<close> cycles (1000,
  at HIGH speed 100), with the latched response and \<open>rx_len\<close> unchanged.
\<close>

lemma ipd_drain_tx_returns_to_idle:
  assumes "sie_fsm s = IPD_DRAIN_TX" "ipd s = 0" "tx_fifo s = []"
    "\<forall>i \<in> set is. \<not> ctrl_txs_valid i \<and> detected_speed i = sp"
    "length is = unat (ipd_max sp)"
  shows "status_idle (sie_run is s) \<and> response (sie_run is s) = response s
    \<and> rx_len (sie_run is s) = rx_len s \<and> ipd (sie_run is s) = 0"
proof -
  from assms(5) ipd_max_unat(3) [of sp] obtain i js where js: "is = js @ [i]"
    by (cases "is" rule: rev_cases) auto
  define t where "t = sie_run js s"
  have "\<forall>i \<in> set js. \<not> ctrl_txs_valid i \<and> detected_speed i = sp"
    "unat (ipd s) + length js < unat (ipd_max sp)"
    using assms(2,4,5) js by simp_all
  from ipd_drain_counts [OF assms(1,3) this]
  have t: "sie_fsm t = IPD_DRAIN_TX" "tx_fifo t = []" "unat (ipd t) = length js"
    "response t = response s" "rx_len t = rx_len s"
    using assms(2) by (simp_all add: t_def)
  have sp: "detected_speed i = sp" using assms(4) js by simp
  have "unat (ipd t) = unat (ipd_max sp - 1)"
    using t(3) assms(5) js ipd_max_unat(1) [of sp] by simp
  then have "ipd t = ipd_max sp - 1" by (simp only: word_unat_eq_iff)
  then have "sie_fsm (sie_step i t) = SIE_IDLE" "response (sie_step i t) = response t"
    "rx_len (sie_step i t) = rx_len t" "ipd (sie_step i t) = 0"
    using t(1,2) sp by (simp_all add: sie_step_def sie_fsm_step_def r_rdy_def)
  with t show ?thesis
    by (simp add: js sie_run_append t_def [symmetric] status_idle_def)
qed

text \<open>
  C5 (as amended). A byte received in \<open>WAIT_IN_DATA\<close> while the Rx FIFO is full is not
  written to the FIFO. Unless the close of the rxa window, a STALL, a NAK or a CRC mismatch
  is signalled in the same cycle, \<open>RX_OVERFLOW\<close> is latched; and unless the receiver
  signals \<open>ready_for_response\<close> in that same cycle, the SIE issues no ACK before it is idle
  again. When the receiver signals \<open>ready_for_response\<close> with no overflow latched and none
  of those four events in the cycle, the SIE issues the ACK in the next cycle and latches
  the response \<open>ACK\<close>. \<open>RX_OVERFLOW\<close> is latched only in a transaction in which a byte
  was dropped.
\<close>

theorem rx_overflow_skips_ack:
  "(rx_byte_dropped i s \<longrightarrow>
      \<not> rx_fifo_w_en i s
      \<and> rx_fifo (sie_step i s) = (if ctrl_rxs_ready i then tl (rx_fifo s) else rx_fifo s)
      \<and> (sof_controller_rxa i \<and> \<not> detected_stall i \<and> \<not> detected_nak i
           \<and> \<not> receiver_crc_mismatch i \<longrightarrow> response (sie_step i s) = RX_OVERFLOW)
      \<and> (\<not> receiver_ready_for_response i \<longrightarrow> acks_until_idle (i # is) s = 0))
   \<and> (sie_fsm s = WAIT_IN_DATA \<and> response s \<noteq> RX_OVERFLOW
        \<and> receiver_ready_for_response i \<and> sof_controller_rxa i \<and> \<not> detected_stall i
        \<and> \<not> detected_nak i \<and> \<not> receiver_crc_mismatch i \<longrightarrow>
      issue_ack (sie_step i s) \<and> response (sie_step j (sie_step i s)) = ACK
      \<and> sie_fsm (sie_step j (sie_step i s)) = IPD_DRAIN_TX)
   \<and> (response (sie_run js sie_init) = RX_OVERFLOW \<longrightarrow>
        0 < snd (rx_counts js sie_init (0, 0)))"
proof (intro conjI impI)
  assume "response (sie_run js sie_init) = RX_OVERFLOW"
  with overflow_invariant [of sie_init "(0, 0)" js]
  show "0 < snd (rx_counts js sie_init (0, 0))" by (simp add: sie_init_def)
next
  assume d: "rx_byte_dropped i s"
  then show "\<not> rx_fifo_w_en i s" by (simp add: rx_byte_dropped_def rx_fifo_w_en_def)
  from d show "rx_fifo (sie_step i s) = (if ctrl_rxs_ready i then tl (rx_fifo s) else rx_fifo s)"
    by (rule dropped_byte_fifo)
  {
    assume "sof_controller_rxa i \<and> \<not> detected_stall i \<and> \<not> detected_nak i
           \<and> \<not> receiver_crc_mismatch i"
    with d show "response (sie_step i s) = RX_OVERFLOW" by (intro dropped_byte_latch) simp_all
  }
  {
    assume "\<not> receiver_ready_for_response i"
    with d show "acks_until_idle (i # is) s = 0" by (rule dropped_byte_no_ack)
  }
next
  assume a: "sie_fsm s = WAIT_IN_DATA \<and> response s \<noteq> RX_OVERFLOW
        \<and> receiver_ready_for_response i \<and> sof_controller_rxa i \<and> \<not> detected_stall i
        \<and> \<not> detected_nak i \<and> \<not> receiver_crc_mismatch i"
  then have v: "issue_ack (sie_step i s) \<and> response (sie_step j (sie_step i s)) = ACK
    \<and> sie_fsm (sie_step j (sie_step i s)) = IPD_DRAIN_TX"
    by (intro valid_packet_acked) simp_all
  from v show "issue_ack (sie_step i s)" by simp
  from v show "response (sie_step j (sie_step i s)) = ACK" by simp
  from v show "sie_fsm (sie_step j (sie_step i s)) = IPD_DRAIN_TX" by simp
qed


theorem rx_overflow_skips_ack_witness:
  "(let s = sie_run (start_in @ replicate 64 (rx_byte 0xAA)) sie_init; i = rx_byte 0xBB in
      rx_byte_dropped i s \<and> rx_fifo (sie_step i s) = rx_fifo s
      \<and> response (sie_step i s) = RX_OVERFLOW
      \<and> acks_until_idle (i # quiet\<lparr>receiver_ready_for_response := True\<rparr> # replicate 100 quiet) s
          = 0)
   \<and> (let s = sie_run (start_in @ [rx_byte 1, rx_byte 2]) sie_init;
          i = quiet\<lparr>receiver_ready_for_response := True\<rparr> in
      issue_ack (sie_step i s) \<and> response (sie_step quiet (sie_step i s)) = ACK)"
proof -
  define s where "s = sie_run (start_in @ replicate 64 (rx_byte 0xAA)) sie_init"
  define t where "t = sie_run (start_in @ [rx_byte 1, rx_byte 2]) sie_init"
  have d: "rx_byte_dropped (rx_byte 0xBB) s"
    unfolding s_def by code_simp
  have i: "sof_controller_rxa (rx_byte 0xBB) \<and> \<not> detected_stall (rx_byte 0xBB)
      \<and> \<not> detected_nak (rx_byte 0xBB) \<and> \<not> receiver_crc_mismatch (rx_byte 0xBB)"
    "\<not> receiver_ready_for_response (rx_byte 0xBB)" "\<not> ctrl_rxs_ready (rx_byte 0xBB)"
    by (simp_all add: rx_byte_def quiet_def)
  have w: "sie_fsm t = WAIT_IN_DATA \<and> response t \<noteq> RX_OVERFLOW"
    unfolding t_def by code_simp
  have j: "receiver_ready_for_response (quiet\<lparr>receiver_ready_for_response := True\<rparr>)
      \<and> sof_controller_rxa (quiet\<lparr>receiver_ready_for_response := True\<rparr>)
      \<and> \<not> detected_stall (quiet\<lparr>receiver_ready_for_response := True\<rparr>)
      \<and> \<not> detected_nak (quiet\<lparr>receiver_ready_for_response := True\<rparr>)
      \<and> \<not> receiver_crc_mismatch (quiet\<lparr>receiver_ready_for_response := True\<rparr>)"
    by (simp add: quiet_def)
  show ?thesis
    using rx_overflow_skips_ack [of "rx_byte 0xBB" s
        "quiet\<lparr>receiver_ready_for_response := True\<rparr> # replicate 100 quiet" quiet]
      rx_overflow_skips_ack [of "quiet\<lparr>receiver_ready_for_response := True\<rparr>" t "[]" quiet]
      d i w j
    unfolding Let_def s_def [symmetric] t_def [symmetric]
    by simp
qed

text \<open>
  The claim as stated fails where the rxa window closes in the cycle in which the byte
  finds the FIFO full: the byte is dropped and the response latched is \<open>TIMEOUT\<close>;
  \<open>RX_OVERFLOW\<close> is never latched in this transaction.
\<close>

theorem rx_overflow_counterexample:
  "let s = sie_run (start_in @ replicate 64 (rx_byte 0xAA)) sie_init;
       i = (rx_byte 0xBB)\<lparr>sof_controller_rxa := False\<rparr>;
       t = sie_run (i # replicate 100 quiet) s in
     rx_byte_dropped i s \<and> response (sie_step i s) = TIMEOUT
     \<and> status_idle t \<and> response t = TIMEOUT \<and> response t \<noteq> RX_OVERFLOW"
  by code_simp





subsection \<open>Enumerator\<close>

lemma enum_run_append: "enum_run cfg (xs @ ys) s = enum_run cfg ys (enum_run cfg xs s)"
  by (induction xs arbitrary: s) auto

lemma wait_ack_state_retry:
  assumes "sie_idle i" "sie_response i = NAK \<or> sie_response i = TIMEOUT"
  shows "wait_ack_state on_ack on_error (Some r) i s =
           (if enum_retry s \<ge> 3 then s\<lparr>enum_retry := 0, enum_fsm := on_error\<rparr>
            else s\<lparr>enum_retry := enum_retry s + 1, enum_fsm := r\<rparr>)"
    and "wait_ack_state on_ack on_error None i s = s\<lparr>enum_fsm := on_error\<rparr>"
  using assms by (auto simp: wait_ack_state_def)

lemma status_phase_wait_state_cases:
  assumes "sie_idle i"
  shows "sie_response i = TIMEOUT \<Longrightarrow>
           status_phase_wait_state st w n on_timeout i s = s\<lparr>enum_fsm := on_timeout\<rparr>"
    and "sie_response i = NAK \<Longrightarrow>
           status_phase_wait_state st w n on_timeout i s = s\<lparr>enum_fsm := st\<rparr>"
    and "sie_response i = ACK \<Longrightarrow>
           status_phase_wait_state st w n on_timeout i s = s\<lparr>enum_fsm := n\<rparr>"
  using assms by (simp_all add: status_phase_wait_state_def)

lemma reset_triggered_helpers [simp]:
  "reset_triggered (load_setup_state n i s) = reset_triggered s"
  "reset_triggered (setup_xfer_state n i s) = reset_triggered s"
  "reset_triggered (wait_ack_state a e r i s) = reset_triggered s"
  "reset_triggered (in_data_load_state n i s) = reset_triggered s"
  "reset_triggered (in_data_wait_state l n i s) = reset_triggered s"
  "reset_triggered (multi_packet_in_state n i s) = reset_triggered s"
  "reset_triggered (multi_packet_wait_state l n i s) = reset_triggered s"
  "reset_triggered (status_phase_state n i s) = reset_triggered s"
  "reset_triggered (status_phase_wait_state st w n t i s) = reset_triggered s"
  by (simp_all add: load_setup_state_def setup_xfer_state_def wait_ack_state_def
      in_data_load_state_def in_data_wait_state_def multi_packet_in_state_def
      multi_packet_wait_state_def status_phase_state_def status_phase_wait_state_def
      Let_def split: option.split)

lemma reset_triggered_step:
  "reset_triggered (enum_step cfg i s) =
     (if enum_fsm s = INIT_RESET then sie_detected_speed i = UNKNOWN else reset_triggered s)"
  by (cases "enum_fsm s") (simp_all add: enum_step_def m_If_def)

lemma init_reset_stays:
  "enum_fsm s = INIT_RESET \<Longrightarrow> sie_detected_speed i = UNKNOWN \<Longrightarrow>
   enum_fsm (enum_step cfg i s) = INIT_RESET"
  by (simp add: enum_step_def m_If_def)

lemma init_reset_leaves:
  "enum_fsm s = INIT_RESET \<Longrightarrow> sie_detected_speed i \<noteq> UNKNOWN \<Longrightarrow>
   enum_fsm (enum_step cfg i s) = WAIT_SIE_READY"
  by (simp add: enum_step_def m_If_def)

lemma reset_triggered_invariant_step:
  assumes "enum_fsm s \<noteq> INIT_RESET \<longrightarrow> \<not> reset_triggered s"
  shows "enum_fsm (enum_step cfg i s) \<noteq> INIT_RESET \<longrightarrow> \<not> reset_triggered (enum_step cfg i s)"
proof (cases "enum_fsm s = INIT_RESET")
  case True
  then show ?thesis
    using init_reset_stays [of s i cfg] by (auto simp: reset_triggered_step)
next
  case False
  with assms show ?thesis by (simp add: reset_triggered_step)
qed

lemma reset_triggered_invariant:
  "enum_fsm s \<noteq> INIT_RESET \<longrightarrow> \<not> reset_triggered s \<Longrightarrow>
   enum_fsm (enum_run cfg is s) \<noteq> INIT_RESET \<longrightarrow> \<not> reset_triggered (enum_run cfg is s)"
proof (induction "is" arbitrary: s)
  case Nil
  then show ?case by simp
next
  case (Cons i "is")
  from Cons.IH [OF reset_triggered_invariant_step [OF Cons.prems]] show ?case by simp
qed

text \<open>
  C3 (as amended). On a NAK or TIMEOUT response to the SETUP transaction, stages 1, 3 and 4
  (the three GET_DESCRIPTOR requests) go back to loading the setup packet and count the
  retry while \<open>enum_retry\<close> is below 3, and with \<open>enum_retry\<close> at 3 move to \<open>INIT-RESET\<close>;
  stages 2 and 5 (SET_ADDRESS, SET_CONFIGURATION) move to \<open>INIT-RESET\<close> at once. Every
  status phase moves to \<open>INIT-RESET\<close> on TIMEOUT and issues the status transfer again on
  NAK. \<open>INIT-RESET\<close> strobes \<open>bus_reset\<close> while \<open>reset_triggered\<close> is clear, which it is
  whenever the FSM is in another state.
\<close>

theorem setup_retry_and_status_timeout:
  "(sie_idle i \<and> (sie_response i = NAK \<or> sie_response i = TIMEOUT) \<longrightarrow>
      (enum_fsm s = ENUM_GET_DESC_DEVICE_WAIT_SETUP \<and> l = ENUM_GET_DESC_DEVICE_LOAD
       \<or> enum_fsm s = ENUM_GET_DESC_DEVICE_FULL_WAIT_SETUP \<and> l = ENUM_GET_DESC_DEVICE_FULL_LOAD
       \<or> enum_fsm s = ENUM_GET_DESC_CONFIG_WAIT_SETUP \<and> l = ENUM_GET_DESC_CONFIG_LOAD \<longrightarrow>
         enum_step cfg i s =
           (if enum_retry s \<ge> 3 then s\<lparr>enum_retry := 0, enum_fsm := INIT_RESET\<rparr>
            else s\<lparr>enum_retry := enum_retry s + 1, enum_fsm := l\<rparr>))
      \<and> (enum_fsm s = ENUM_SET_ADDRESS_WAIT_SETUP \<or> enum_fsm s = ENUM_SET_CONFIG_WAIT_SETUP \<longrightarrow>
         enum_step cfg i s = s\<lparr>enum_fsm := INIT_RESET\<rparr>))
   \<and> (sie_idle i \<and>
        (enum_fsm s = ENUM_GET_DESC_DEVICE_WAIT_STATUS \<and> st = ENUM_GET_DESC_DEVICE_STATUS
         \<or> enum_fsm s = ENUM_SET_ADDRESS_WAIT_STATUS \<and> st = ENUM_SET_ADDRESS_STATUS
         \<or> enum_fsm s = ENUM_GET_DESC_DEVICE_FULL_WAIT_STATUS \<and> st = ENUM_GET_DESC_DEVICE_FULL_STATUS
         \<or> enum_fsm s = ENUM_GET_DESC_CONFIG_WAIT_STATUS \<and> st = ENUM_GET_DESC_CONFIG_STATUS
         \<or> enum_fsm s = ENUM_SET_CONFIG_WAIT_STATUS \<and> st = ENUM_SET_CONFIG_STATUS) \<longrightarrow>
      (sie_response i = TIMEOUT \<longrightarrow> enum_step cfg i s = s\<lparr>enum_fsm := INIT_RESET\<rparr>)
      \<and> (sie_response i = NAK \<longrightarrow> enum_step cfg i s = s\<lparr>enum_fsm := st\<rparr>))
   \<and> (enum_fsm s = INIT_RESET \<and> \<not> reset_triggered s \<longrightarrow> o_bus_reset (enum_out cfg i s))
   \<and> (enum_fsm (enum_run cfg is enum_init) \<noteq> INIT_RESET \<longrightarrow>
        \<not> reset_triggered (enum_run cfg is enum_init))"
proof (intro conjI impI)
  assume a: "sie_idle i \<and> (sie_response i = NAK \<or> sie_response i = TIMEOUT)"
  then have i: "sie_idle i" and r: "sie_response i = NAK \<or> sie_response i = TIMEOUT"
    by simp_all
  {
    assume "enum_fsm s = ENUM_GET_DESC_DEVICE_WAIT_SETUP \<and> l = ENUM_GET_DESC_DEVICE_LOAD
       \<or> enum_fsm s = ENUM_GET_DESC_DEVICE_FULL_WAIT_SETUP \<and> l = ENUM_GET_DESC_DEVICE_FULL_LOAD
       \<or> enum_fsm s = ENUM_GET_DESC_CONFIG_WAIT_SETUP \<and> l = ENUM_GET_DESC_CONFIG_LOAD"
    then show "enum_step cfg i s =
           (if enum_retry s \<ge> 3 then s\<lparr>enum_retry := 0, enum_fsm := INIT_RESET\<rparr>
            else s\<lparr>enum_retry := enum_retry s + 1, enum_fsm := l\<rparr>)"
      by (elim disjE conjE) (simp_all add: enum_step_def wait_ack_state_retry [OF i r])
  }
  {
    assume "enum_fsm s = ENUM_SET_ADDRESS_WAIT_SETUP \<or> enum_fsm s = ENUM_SET_CONFIG_WAIT_SETUP"
    then show "enum_step cfg i s = s\<lparr>enum_fsm := INIT_RESET\<rparr>"
      by (elim disjE) (simp_all add: enum_step_def wait_ack_state_retry [OF i r])
  }
next
  assume a: "sie_idle i \<and>
        (enum_fsm s = ENUM_GET_DESC_DEVICE_WAIT_STATUS \<and> st = ENUM_GET_DESC_DEVICE_STATUS
         \<or> enum_fsm s = ENUM_SET_ADDRESS_WAIT_STATUS \<and> st = ENUM_SET_ADDRESS_STATUS
         \<or> enum_fsm s = ENUM_GET_DESC_DEVICE_FULL_WAIT_STATUS \<and> st = ENUM_GET_DESC_DEVICE_FULL_STATUS
         \<or> enum_fsm s = ENUM_GET_DESC_CONFIG_WAIT_STATUS \<and> st = ENUM_GET_DESC_CONFIG_STATUS
         \<or> enum_fsm s = ENUM_SET_CONFIG_WAIT_STATUS \<and> st = ENUM_SET_CONFIG_STATUS)"
  then have i: "sie_idle i" by simp
  {
    assume "sie_response i = TIMEOUT"
    with a show "enum_step cfg i s = s\<lparr>enum_fsm := INIT_RESET\<rparr>"
      by (elim disjE conjE) (simp_all add: enum_step_def status_phase_wait_state_cases [OF i])
  }
  {
    assume "sie_response i = NAK"
    with a show "enum_step cfg i s = s\<lparr>enum_fsm := st\<rparr>"
      by (elim disjE conjE) (simp_all add: enum_step_def status_phase_wait_state_cases [OF i])
  }
next
  assume "enum_fsm s = INIT_RESET \<and> \<not> reset_triggered s"
  then show "o_bus_reset (enum_out cfg i s)"
    by (simp add: enum_out_def m_If_def)
next
  assume "enum_fsm (enum_run cfg is enum_init) \<noteq> INIT_RESET"
  with reset_triggered_invariant [of enum_init cfg "is"]
  show "\<not> reset_triggered (enum_run cfg is enum_init)"
    by (simp add: enum_init_def)
qed

theorem setup_retry_and_status_timeout_witness:
  "let a = load_and_setup @ [sie_done NAK];
       s = enum_run default_config (take 2 stage1_run @ a @ a @ a @ load_and_setup) enum_init;
       t = enum_run default_config (take 2 stage1_run @ a @ load_and_setup) enum_init in
     enum_fsm s = ENUM_GET_DESC_DEVICE_WAIT_SETUP \<and> enum_retry s = 3
     \<and> enum_step default_config (sie_done NAK) s = s\<lparr>enum_retry := 0, enum_fsm := INIT_RESET\<rparr>
     \<and> o_bus_reset (enum_out default_config (sie_done NONE)
          (s\<lparr>enum_retry := 0, enum_fsm := INIT_RESET\<rparr>))
     \<and> enum_retry t = 1
     \<and> enum_step default_config (sie_done TIMEOUT) t
         = t\<lparr>enum_retry := 2, enum_fsm := ENUM_GET_DESC_DEVICE_LOAD\<rparr>"
proof -
  define a where "a = load_and_setup @ [sie_done NAK]"
  define ss where "ss = take 2 stage1_run @ a @ a @ a @ load_and_setup"
  define s where "s = enum_run default_config ss enum_init"
  define t where "t = enum_run default_config (take 2 stage1_run @ a @ load_and_setup) enum_init"
  have s: "enum_fsm s = ENUM_GET_DESC_DEVICE_WAIT_SETUP" "enum_retry s = 3"
    unfolding s_def ss_def a_def by code_simp+
  have t: "enum_fsm t = ENUM_GET_DESC_DEVICE_WAIT_SETUP" "enum_retry t = 1"
    unfolding t_def a_def by code_simp+
  have i: "sie_idle (sie_done NAK)" "sie_response (sie_done NAK) = NAK"
    "sie_idle (sie_done TIMEOUT)" "sie_response (sie_done TIMEOUT) = TIMEOUT"
    by (simp_all add: sie_done_def)
  have nr: "\<not> reset_triggered s"
    using setup_retry_and_status_timeout [of "sie_done NAK" s ENUM_GET_DESC_DEVICE_LOAD
        default_config ENUM_GET_DESC_DEVICE_STATUS ss] s
    by (simp add: s_def)
  have 1: "enum_step default_config (sie_done NAK) s = s\<lparr>enum_retry := 0, enum_fsm := INIT_RESET\<rparr>"
    using setup_retry_and_status_timeout [of "sie_done NAK" s ENUM_GET_DESC_DEVICE_LOAD
        default_config ENUM_GET_DESC_DEVICE_STATUS ss] s i
    by simp
  have 2: "o_bus_reset (enum_out default_config (sie_done NONE)
          (s\<lparr>enum_retry := 0, enum_fsm := INIT_RESET\<rparr>))"
    using setup_retry_and_status_timeout [of "sie_done NONE"
        "s\<lparr>enum_retry := 0, enum_fsm := INIT_RESET\<rparr>" ENUM_GET_DESC_DEVICE_LOAD
        default_config ENUM_GET_DESC_DEVICE_STATUS ss] nr
    by simp
  have 3: "enum_step default_config (sie_done TIMEOUT) t
         = t\<lparr>enum_retry := 2, enum_fsm := ENUM_GET_DESC_DEVICE_LOAD\<rparr>"
    using setup_retry_and_status_timeout [of "sie_done TIMEOUT" t ENUM_GET_DESC_DEVICE_LOAD
        default_config ENUM_GET_DESC_DEVICE_STATUS ss] t i
    by (simp add: word_le_nat_alt)
  show ?thesis
    unfolding Let_def a_def [symmetric] ss_def [symmetric] s_def [symmetric] t_def [symmetric]
    using s t 1 2 3 by simp
qed

text \<open>
  The claim as stated fails for stage 2: the first NAK to the SET_ADDRESS setup
  transaction, with no retry counted, takes the FSM to \<open>INIT-RESET\<close> and not back to
  loading the setup packet.
\<close>

theorem setup_no_retry_counterexample:
  "let s = enum_run default_config (stage1_run @ load_and_setup) enum_init in
     enum_fsm s = ENUM_SET_ADDRESS_WAIT_SETUP \<and> enum_retry s = 0
     \<and> enum_fsm (enum_step default_config (sie_done NAK) s) = INIT_RESET
     \<and> enum_fsm (enum_step default_config (sie_done NAK) s) \<noteq> ENUM_SET_ADDRESS_LOAD"
  by code_simp

text \<open>
  C4 (as amended). In the multi-packet IN data phases of stages 3 and 4 the enumerator
  issues every IN token on endpoint 0 of the assigned address with data PID DATA1 (it does
  not toggle); it issues another IN token after an ACK with \<open>rx_len\<close> equal to the captured
  \<open>max_packet_size\<close> and after a NAK, and it leaves the data phase for the status phase on
  an ACK with \<open>rx_len\<close> different from \<open>max_packet_size\<close> and on every other response.
\<close>

theorem multi_packet_in_phase:
  "(sie_idle i \<and>
      (enum_fsm s = ENUM_GET_DESC_DEVICE_FULL_IN \<and> w = ENUM_GET_DESC_DEVICE_FULL_WAIT_IN
       \<or> enum_fsm s = ENUM_GET_DESC_CONFIG_IN \<and> w = ENUM_GET_DESC_CONFIG_WAIT_IN) \<longrightarrow>
      o_xfer (enum_out cfg i s) = start_xfer IN DATA1 (current_dev_addr s)
      \<and> enum_step cfg i s = s\<lparr>enum_fsm := w\<rparr>)
   \<and> (sie_idle i \<and>
        (enum_fsm s = ENUM_GET_DESC_DEVICE_FULL_WAIT_IN \<and> n = ENUM_GET_DESC_DEVICE_FULL_IN
           \<and> e = ENUM_GET_DESC_DEVICE_FULL_STATUS
         \<or> enum_fsm s = ENUM_GET_DESC_CONFIG_WAIT_IN \<and> n = ENUM_GET_DESC_CONFIG_IN
           \<and> e = ENUM_GET_DESC_CONFIG_STATUS) \<longrightarrow>
      enum_step cfg i s =
        s\<lparr>enum_fsm :=
            if sie_response i = ACK \<and> sie_rx_len i = max_packet_size s \<or> sie_response i = NAK
            then n else e\<rparr>)"
proof (intro conjI impI)
  assume a: "sie_idle i \<and>
      (enum_fsm s = ENUM_GET_DESC_DEVICE_FULL_IN \<and> w = ENUM_GET_DESC_DEVICE_FULL_WAIT_IN
       \<or> enum_fsm s = ENUM_GET_DESC_CONFIG_IN \<and> w = ENUM_GET_DESC_CONFIG_WAIT_IN)"
  then show "o_xfer (enum_out cfg i s) = start_xfer IN DATA1 (current_dev_addr s)"
    by (elim disjE conjE) (simp_all add: enum_out_def multi_packet_in_out_def m_If_def)
  from a show "enum_step cfg i s = s\<lparr>enum_fsm := w\<rparr>"
    by (elim disjE conjE) (simp_all add: enum_step_def multi_packet_in_state_def)
next
  assume "sie_idle i \<and>
        (enum_fsm s = ENUM_GET_DESC_DEVICE_FULL_WAIT_IN \<and> n = ENUM_GET_DESC_DEVICE_FULL_IN
           \<and> e = ENUM_GET_DESC_DEVICE_FULL_STATUS
         \<or> enum_fsm s = ENUM_GET_DESC_CONFIG_WAIT_IN \<and> n = ENUM_GET_DESC_CONFIG_IN
           \<and> e = ENUM_GET_DESC_CONFIG_STATUS)"
  then show "enum_step cfg i s =
        s\<lparr>enum_fsm :=
            if sie_response i = ACK \<and> sie_rx_len i = max_packet_size s \<or> sie_response i = NAK
            then n else e\<rparr>"
    by (elim disjE conjE) (auto simp: enum_step_def multi_packet_wait_state_def)
qed

theorem multi_packet_in_phase_witness:
  "let s = enum_run default_config (stage1_run @ stage2_run @ stage3_setup_run) enum_init;
       t = s\<lparr>enum_fsm := ENUM_GET_DESC_DEVICE_FULL_WAIT_IN\<rparr> in
     enum_fsm s = ENUM_GET_DESC_DEVICE_FULL_IN \<and> max_packet_size s = 64
     \<and> o_xfer (enum_out default_config (sie_done NONE) s) = start_xfer IN DATA1 0x12
     \<and> enum_step default_config (sie_done NONE) s = t
     \<and> enum_step default_config ((sie_done ACK)\<lparr>sie_rx_len := 64\<rparr>) t = s
     \<and> enum_step default_config ((sie_done ACK)\<lparr>sie_rx_len := 18\<rparr>) t
         = s\<lparr>enum_fsm := ENUM_GET_DESC_DEVICE_FULL_STATUS\<rparr>"
proof -
  define s where "s = enum_run default_config (stage1_run @ stage2_run @ stage3_setup_run) enum_init"
  define t where "t = s\<lparr>enum_fsm := ENUM_GET_DESC_DEVICE_FULL_WAIT_IN\<rparr>"
  have s: "enum_fsm s = ENUM_GET_DESC_DEVICE_FULL_IN" "max_packet_size s = 64"
    "current_dev_addr s = 0x12"
    unfolding s_def by code_simp+
  have i: "sie_idle (sie_done r)" "sie_response (sie_done r) = r" for r
    by (simp_all add: sie_done_def)
  have 1: "o_xfer (enum_out default_config (sie_done NONE) s) = start_xfer IN DATA1 0x12
      \<and> enum_step default_config (sie_done NONE) s = t"
    using multi_packet_in_phase [where i = "sie_done NONE" and s = s
        and w = ENUM_GET_DESC_DEVICE_FULL_WAIT_IN and n = ENUM_GET_DESC_DEVICE_FULL_IN
        and e = ENUM_GET_DESC_DEVICE_FULL_STATUS and cfg = default_config] s i
    by (simp add: t_def)
  have 2: "enum_step default_config ((sie_done ACK)\<lparr>sie_rx_len := 64\<rparr>) t = s"
    using multi_packet_in_phase [where i = "(sie_done ACK)\<lparr>sie_rx_len := 64\<rparr>" and s = t
        and w = ENUM_GET_DESC_DEVICE_FULL_WAIT_IN and n = ENUM_GET_DESC_DEVICE_FULL_IN
        and e = ENUM_GET_DESC_DEVICE_FULL_STATUS and cfg = default_config] s i
    by (simp add: t_def)
  have 3: "enum_step default_config ((sie_done ACK)\<lparr>sie_rx_len := 18\<rparr>) t
         = s\<lparr>enum_fsm := ENUM_GET_DESC_DEVICE_FULL_STATUS\<rparr>"
    using multi_packet_in_phase [where i = "(sie_done ACK)\<lparr>sie_rx_len := 18\<rparr>" and s = t
        and w = ENUM_GET_DESC_DEVICE_FULL_WAIT_IN and n = ENUM_GET_DESC_DEVICE_FULL_IN
        and e = ENUM_GET_DESC_DEVICE_FULL_STATUS and cfg = default_config] s i
    by (simp add: t_def)
  show ?thesis
    unfolding Let_def s_def [symmetric] t_def [symmetric]
    using s 1 2 3 by simp
qed

text \<open>
  The claim as stated fails: after the ACK of a full packet the next IN token carries DATA1
  again, as the first did; and a STALL ends the data phase although no short packet was
  acknowledged.
\<close>

theorem multi_packet_in_counterexample:
  "let s = enum_run default_config (stage1_run @ stage2_run @ stage3_setup_run) enum_init;
       t = enum_run default_config [sie_done NONE, (sie_done ACK)\<lparr>sie_rx_len := 64\<rparr>] s in
     enum_fsm s = ENUM_GET_DESC_DEVICE_FULL_IN \<and> max_packet_size s = 64
     \<and> xfer_data_pid (o_xfer (enum_out default_config (sie_done NONE) s)) = DATA1
     \<and> enum_fsm t = ENUM_GET_DESC_DEVICE_FULL_IN
     \<and> xfer_start (o_xfer (enum_out default_config (sie_done NONE) t))
     \<and> xfer_data_pid (o_xfer (enum_out default_config (sie_done NONE) t)) = DATA1
     \<and> enum_fsm (enum_run default_config [sie_done NONE, sie_done STALL] s)
         = ENUM_GET_DESC_DEVICE_FULL_STATUS"
  by code_simp

subsection \<open>Descriptor parser\<close>

lemma parser_run_append:
  "parser_run cfg (xs @ ys) s = parser_run cfg ys (parser_run cfg xs s)"
  by (induction xs arbitrary: s) auto

lemma feed_simps:
  "feed cfg [] s = s"
  "feed cfg (b # bs) s = feed cfg bs (parser_step cfg (put b) s)"
  "feed cfg (xs @ ys) s = feed cfg ys (feed cfg xs s)"
  by (simp_all add: feed_def parser_run_append)

lemma switch_offset_fields [simp]:
  "parser_fsm (switch_offset cfg p s t) = parser_fsm t"
  "bLength (switch_offset cfg p s t) = bLength t"
  "offset (switch_offset cfg p s t) = offset t"
  "o_valid (switch_offset cfg p s t) = o_valid t"
  "found_in (switch_offset cfg p s t) = found_in t"
  "found_out (switch_offset cfg p s t) = found_out t"
  "o_i_endp (switch_offset cfg p s t) = o_i_endp t"
  "o_o_endp (switch_offset cfg p s t) = o_o_endp t"
  by (simp_all add: switch_offset_def m_If_def)

lemma descriptor_end_fields:
  "parser_fsm (descriptor_end cfg s t) = (if all_found cfg s then DONE else GET_LEN)"
  "bLength (descriptor_end cfg s t) = bLength t"
  "offset (descriptor_end cfg s t) = offset t"
  "o_valid (descriptor_end cfg s t) = (o_valid t \<or> all_found cfg s)"
  "found_in (descriptor_end cfg s t) = (found_in t \<or> capturing_in cfg s)"
  "found_out (descriptor_end cfg s t) = (found_out t \<or> capturing_out cfg s)"
  by (simp_all add: descriptor_end_def m_If_def)

lemma in_descriptor_fields:
  "parser_fsm (in_descriptor cfg p s) =
     (if at_descriptor_end s then (if all_found cfg s then DONE else GET_LEN) else parser_fsm s)"
  "bLength (in_descriptor cfg p s) = bLength s"
  "offset (in_descriptor cfg p s) = offset s + 1"
  "o_valid (in_descriptor cfg p s) = (o_valid s \<or> at_descriptor_end s \<and> all_found cfg s)"
  "found_in (in_descriptor cfg p s) = (found_in s \<or> at_descriptor_end s \<and> capturing_in cfg s)"
  "found_out (in_descriptor cfg p s) = (found_out s \<or> at_descriptor_end s \<and> capturing_out cfg s)"
  by (simp_all add: in_descriptor_def m_If_def descriptor_end_fields)

lemma put_fields [simp]: "enable (put b)" "i_valid (put b)" "i_payload (put b) = b"
  by (simp_all add: put_def)

lemma step_in_descriptor:
  "parser_fsm s = IN_DESCRIPTOR \<Longrightarrow> parser_step cfg (put b) s = in_descriptor cfg b s"
  by (simp add: parser_step_def)

lemma u8_suc: "unat (w :: 8 word) < 255 \<Longrightarrow> unat (w + 1) = Suc (unat w)"
  by (simp add: unat_word_ariths)

lemma at_descriptor_end_iff:
  "at_descriptor_end s = (unat (offset s) + 2 = unat (bLength s))"
  unfolding at_descriptor_end_def by arith

lemma walk_inside:
  "parser_fsm s = IN_DESCRIPTOR \<Longrightarrow> unat (offset s) + length bs + 2 \<le> unat (bLength s) \<Longrightarrow>
   parser_fsm (feed cfg bs s) = IN_DESCRIPTOR \<and> bLength (feed cfg bs s) = bLength s
   \<and> unat (offset (feed cfg bs s)) = unat (offset s) + length bs"
proof (induction bs arbitrary: s)
  case Nil
  then show ?case by (simp add: feed_simps)
next
  case (Cons b bs)
  let ?t = "in_descriptor cfg b s"
  have "unat (bLength s) \<le> 255"
    using unsigned_less [of "bLength s", where 'a = nat] by simp
  with Cons.prems have lt: "unat (offset s) < 255" by simp
  have ne: "\<not> at_descriptor_end s"
    using Cons.prems by (simp add: at_descriptor_end_iff)
  have t: "parser_fsm ?t = IN_DESCRIPTOR" "bLength ?t = bLength s"
    "unat (offset ?t) = Suc (unat (offset s))"
    using Cons.prems(1) ne u8_suc [OF lt] by (simp_all add: in_descriptor_fields)
  then have "unat (offset ?t) + length bs + 2 \<le> unat (bLength ?t)"
    using Cons.prems(2) by simp
  from Cons.IH [OF t(1) this] t step_in_descriptor [OF Cons.prems(1), of cfg b]
  show ?case by (simp add: feed_simps)
qed

lemma walk_last:
  assumes "parser_fsm s = IN_DESCRIPTOR" "unat (offset s) + 2 = unat (bLength s)"
  shows "parser_fsm (parser_step cfg (put b) s) = (if all_found cfg s then DONE else GET_LEN)"
proof -
  have "at_descriptor_end s" using assms(2) by (simp add: at_descriptor_end_iff)
  then show ?thesis
    using assms(1) by (simp add: step_in_descriptor in_descriptor_fields)
qed

lemma walk_descriptor:
  assumes g: "parser_fsm s = GET_LEN" and L: "2 \<le> unat L" and len: "length bs = unat L - 1"
  shows "\<forall>k < length bs. parser_fsm (feed cfg (L # take k bs) s) = IN_DESCRIPTOR"
    and "parser_fsm (feed cfg (L # bs) s) = GET_LEN \<or> parser_fsm (feed cfg (L # bs) s) = DONE"
proof -
  define s0 where "s0 = parser_step cfg (put L) s"
  have s0: "parser_fsm s0 = IN_DESCRIPTOR" "bLength s0 = L" "offset s0 = 0"
    using g by (simp_all add: s0_def parser_step_def)
  show "\<forall>k < length bs. parser_fsm (feed cfg (L # take k bs) s) = IN_DESCRIPTOR"
  proof (intro allI impI)
    fix k assume k: "k < length bs"
    then have "unat (offset s0) + length (take k bs) + 2 \<le> unat (bLength s0)"
      using s0 len L by simp
    from walk_inside [OF s0(1) this]
    show "parser_fsm (feed cfg (L # take k bs) s) = IN_DESCRIPTOR"
      by (simp add: feed_simps s0_def)
  qed
  from len L obtain b bs' where bs: "bs = bs' @ [b]"
    by (cases bs rule: rev_cases) auto
  have "unat (offset s0) + length bs' + 2 \<le> unat (bLength s0)"
    using s0 len L bs by simp
  from walk_inside [OF s0(1) this, of cfg]
  have t: "parser_fsm (feed cfg bs' s0) = IN_DESCRIPTOR"
    "unat (offset (feed cfg bs' s0)) + 2 = unat (bLength (feed cfg bs' s0))"
    using s0 len L bs by simp_all
  from walk_last [OF t, of cfg b]
  show "parser_fsm (feed cfg (L # bs) s) = GET_LEN \<or> parser_fsm (feed cfg (L # bs) s) = DONE"
    by (simp add: feed_simps s0_def bs)
qed

lemma never_ends:
  "parser_fsm s = IN_DESCRIPTOR \<Longrightarrow> unat (bLength s) < 2 \<Longrightarrow>
   parser_fsm (parser_run cfg is s) = IN_DESCRIPTOR"
proof (induction "is" arbitrary: s)
  case Nil
  then show ?case by simp
next
  case (Cons i "is")
  have "\<not> at_descriptor_end s" using Cons.prems(2) by (simp add: at_descriptor_end_iff)
  then have "parser_fsm (parser_step cfg i s) = IN_DESCRIPTOR"
    "bLength (parser_step cfg i s) = bLength s"
    using Cons.prems(1) by (simp_all add: parser_step_def in_descriptor_fields)
  with Cons.IH [of "parser_step cfg i s"] Cons.prems(2) show ?case by simp
qed

lemma done_absorbing: "parser_fsm s = DONE \<Longrightarrow> parser_run cfg is s = s"
proof (induction "is")
  case Nil
  then show ?case by simp
next
  case (Cons i "is")
  then show ?case by (simp add: parser_step_def)
qed

lemma want_some: "want_in cfg \<or> want_out cfg"
  by (cases "endpoint_filter cfg") (simp_all add: want_in_def want_out_def)

lemma all_captured_end:
  "at_descriptor_end s \<Longrightarrow> all_captured cfg (in_descriptor cfg p s) = all_found cfg s"
  by (simp add: all_captured_def all_found_def in_descriptor_fields)

lemma all_captured_inside:
  "\<not> at_descriptor_end s \<Longrightarrow> all_captured cfg (in_descriptor cfg p s) = all_captured cfg s"
  by (simp add: all_captured_def in_descriptor_fields)

lemma parser_inv_step: "parser_inv cfg s \<Longrightarrow> parser_inv cfg (parser_step cfg i s)"
proof (cases "parser_fsm s")
  case INIT
  assume inv: "parser_inv cfg s"
  have "all_captured cfg (parser_step cfg i s) = all_captured cfg s"
    "o_valid (parser_step cfg i s) = o_valid s" "parser_fsm (parser_step cfg i s) \<noteq> DONE"
    using INIT by (simp_all add: parser_step_def all_captured_def)
  with inv INIT show ?thesis by (simp add: parser_inv_def)
next
  case GET_LEN
  assume inv: "parser_inv cfg s"
  have "all_captured cfg (parser_step cfg i s) = all_captured cfg s"
    "o_valid (parser_step cfg i s) = o_valid s" "parser_fsm (parser_step cfg i s) \<noteq> DONE"
    using GET_LEN by (simp_all add: parser_step_def all_captured_def)
  with inv GET_LEN show ?thesis by (simp add: parser_inv_def)
next
  case IN_DESCRIPTOR
  assume inv: "parser_inv cfg s"
  show ?thesis
  proof (cases "i_valid i")
    case False
    with IN_DESCRIPTOR inv show ?thesis by (simp add: parser_step_def)
  next
    case True
    then have st: "parser_step cfg i s = in_descriptor cfg (i_payload i) s"
      using IN_DESCRIPTOR by (simp add: parser_step_def)
    show ?thesis
    proof (cases "at_descriptor_end s")
      case True
      with inv IN_DESCRIPTOR show ?thesis
        unfolding st parser_inv_def
        by (simp add: all_captured_end in_descriptor_fields)
    next
      case False
      with inv IN_DESCRIPTOR show ?thesis
        unfolding st parser_inv_def
        by (simp add: all_captured_inside in_descriptor_fields)
    qed
  qed
next
  case DONE
  assume "parser_inv cfg s"
  with DONE show ?thesis by (simp add: parser_step_def)
qed

lemma parser_inv_run: "parser_inv cfg s \<Longrightarrow> parser_inv cfg (parser_run cfg is s)"
  by (induction "is" arbitrary: s) (simp_all add: parser_inv_step)

lemma parser_inv_init: "parser_inv cfg parser_init"
  using want_some [of cfg] by (auto simp: parser_inv_def parser_init_def all_captured_def)

text \<open>
  C8 (as amended). The parser reads \<open>bLength\<close> and, when it is at least 2, takes exactly
  \<open>bLength - 1\<close> further bytes as part of the descriptor and is then ready for the next
  length byte (or done); a cycle without a valid byte changes nothing. With \<open>bLength\<close>
  below 2 it never finds the end of the descriptor. On every input, \<open>o.valid\<close> is set
  exactly when the FSM is in \<open>DONE\<close>, which is exactly when all endpoints wanted by the
  filter have been captured; in \<open>DONE\<close> no register or output changes any more, whatever
  is offered, while \<open>i.ready\<close> stays asserted.
\<close>

theorem parser_walk_and_done:
  "(parser_fsm s = GET_LEN \<and> 2 \<le> unat L \<and> length bs = unat L - 1 \<longrightarrow>
      (\<forall>k < length bs. parser_fsm (feed cfg (L # take k bs) s) = IN_DESCRIPTOR)
      \<and> (parser_fsm (feed cfg (L # bs) s) = GET_LEN \<or> parser_fsm (feed cfg (L # bs) s) = DONE))
   \<and> (parser_fsm s \<noteq> INIT \<and> \<not> i_valid i \<longrightarrow> parser_step cfg i s = s)
   \<and> (parser_fsm s = IN_DESCRIPTOR \<and> unat (bLength s) < 2 \<longrightarrow>
        parser_fsm (parser_run cfg js s) = IN_DESCRIPTOR)
   \<and> all_captured cfg (parser_run cfg js parser_init)
       = (parser_fsm (parser_run cfg js parser_init) = DONE)
   \<and> o_valid (parser_run cfg js parser_init)
       = (parser_fsm (parser_run cfg js parser_init) = DONE)
   \<and> (parser_fsm s = DONE \<longrightarrow> i_ready s \<and> parser_run cfg js s = s)"
proof -
  have 1: "parser_fsm s = GET_LEN \<and> 2 \<le> unat L \<and> length bs = unat L - 1 \<longrightarrow>
      (\<forall>k < length bs. parser_fsm (feed cfg (L # take k bs) s) = IN_DESCRIPTOR)
      \<and> (parser_fsm (feed cfg (L # bs) s) = GET_LEN \<or> parser_fsm (feed cfg (L # bs) s) = DONE)"
    using walk_descriptor [of s L bs cfg] by blast
  have 2: "parser_fsm s \<noteq> INIT \<and> \<not> i_valid i \<longrightarrow> parser_step cfg i s = s"
    by (cases "parser_fsm s") (simp_all add: parser_step_def)
  have 3: "parser_fsm s = IN_DESCRIPTOR \<and> unat (bLength s) < 2 \<longrightarrow>
        parser_fsm (parser_run cfg js s) = IN_DESCRIPTOR"
    using never_ends [of s cfg js] by blast
  have "parser_inv cfg (parser_run cfg js parser_init)"
    by (rule parser_inv_run [OF parser_inv_init])
  then have 4: "all_captured cfg (parser_run cfg js parser_init)
       = (parser_fsm (parser_run cfg js parser_init) = DONE)"
    and 5: "o_valid (parser_run cfg js parser_init)
       = (parser_fsm (parser_run cfg js parser_init) = DONE)"
    by (simp_all add: parser_inv_def)
  have 6: "parser_fsm s = DONE \<longrightarrow> i_ready s \<and> parser_run cfg js s = s"
    using done_absorbing [of s cfg js] by (simp add: i_ready_def)
  from 1 2 3 4 5 6 show ?thesis by blast
qed

theorem parser_walk_and_done_witness:
  "let t = parser_run keyboard_parser (map put (0 # keyboard_descriptor)) parser_init in
     parser_fsm (feed keyboard_parser (9 # take 7 [2, 34, 0, 1, 1, 0, 0xA0, 50]) parser_enabled)
       = IN_DESCRIPTOR
     \<and> (parser_fsm (feed keyboard_parser (9 # [2, 34, 0, 1, 1, 0, 0xA0, 50]) parser_enabled) = GET_LEN
         \<or> parser_fsm (feed keyboard_parser (9 # [2, 34, 0, 1, 1, 0, 0xA0, 50]) parser_enabled) = DONE)
     \<and> parser_fsm t = DONE \<and> all_captured keyboard_parser t \<and> o_valid t \<and> i_ready t
     \<and> endp_number (o_i_endp t) = 1
     \<and> parser_run keyboard_parser (map put [1, 2, 3]) t = t"
proof -
  define t where "t = parser_run keyboard_parser (map put (0 # keyboard_descriptor)) parser_init"
  define bs where "bs = [2, 34, 0, 1, 1, 0, 0xA0, 50 :: 8 word]"
  have len: "length bs = 8" by (simp add: bs_def)
  have g: "parser_fsm parser_enabled = GET_LEN \<and> 2 \<le> unat (9 :: 8 word)
      \<and> length bs = unat (9 :: 8 word) - 1"
    by (simp add: parser_enabled_def len)
  have d: "parser_fsm t = DONE" "endp_number (o_i_endp t) = 1"
    unfolding t_def by code_simp+
  from parser_walk_and_done [where s = parser_enabled and L = 9 and bs = bs
      and cfg = keyboard_parser] g
  have a: "\<forall>k < length bs. parser_fsm (feed keyboard_parser (9 # take k bs) parser_enabled)
        = IN_DESCRIPTOR"
    and b: "parser_fsm (feed keyboard_parser (9 # bs) parser_enabled) = GET_LEN
        \<or> parser_fsm (feed keyboard_parser (9 # bs) parser_enabled) = DONE"
    by blast+
  from a len have "parser_fsm (feed keyboard_parser (9 # take 7 bs) parser_enabled) = IN_DESCRIPTOR"
    by simp
  with b have 1: "parser_fsm (feed keyboard_parser (9 # take 7 [2, 34, 0, 1, 1, 0, 0xA0, 50]) parser_enabled)
       = IN_DESCRIPTOR
     \<and> (parser_fsm (feed keyboard_parser (9 # [2, 34, 0, 1, 1, 0, 0xA0, 50]) parser_enabled) = GET_LEN
         \<or> parser_fsm (feed keyboard_parser (9 # [2, 34, 0, 1, 1, 0, 0xA0, 50]) parser_enabled) = DONE)"
    unfolding bs_def by blast
  have 2: "all_captured keyboard_parser t \<and> o_valid t"
    using parser_walk_and_done [where cfg = keyboard_parser
        and js = "map put (0 # keyboard_descriptor)"] d(1)
    by (simp add: t_def)
  have 3: "i_ready t \<and> parser_run keyboard_parser (map put [1, 2, 3]) t = t"
    using parser_walk_and_done [where s = t and cfg = keyboard_parser
        and js = "map put [1, 2, 3]"] d(1)
    by simp
  show ?thesis
    unfolding Let_def t_def [symmetric] using 1 2 3 d by simp
qed

text \<open>
  The claim as stated fails in two places. After a length byte of 1 the parser does not
  loop after zero further bytes: it takes the following bytes as part of the descriptor
  (the 7 is not read as a length). And once \<open>o.valid\<close> is set the parser keeps \<open>i.ready\<close>
  asserted, so bytes offered on the stream are still taken.
\<close>

theorem parser_counterexample:
  "let t = feed keyboard_parser keyboard_descriptor parser_enabled in
     parser_fsm (feed keyboard_parser [1] parser_enabled) = IN_DESCRIPTOR
     \<and> parser_fsm (feed keyboard_parser [1, 5] parser_enabled) = IN_DESCRIPTOR
     \<and> parser_fsm (feed keyboard_parser [1, 5, 7] parser_enabled) = IN_DESCRIPTOR
     \<and> bLength (feed keyboard_parser [1, 5, 7] parser_enabled) = 1
     \<and> o_valid t \<and> i_ready t"
  by code_simp

subsection \<open>Keyboard engine\<close>

lemma kbd_poll_ack_step:
  assumes "kbd_fsm s = KBD_POLL" "\<not> watchdog_expired s" "\<not> poll_now i s"
    "kbd_response i = ACK" "KEYBOARD_REPORT_SIZE \<le> unat (rx_byte_count s)"
  shows "kbd_fsm (kbd_step i s) = EMIT_REPORT" "report_bytes (kbd_step i s) = report_bytes s"
  using assms
  by (simp_all add: kbd_step_def kbd_fsm_step_def rx_path_def m_If_def)

lemma rx_path_fsm: "kbd_fsm (rx_path i s t) = kbd_fsm t"
  by (simp add: rx_path_def m_If_def)

lemma kbd_poll_emit_only:
  assumes "kbd_fsm s = KBD_POLL" "kbd_fsm (kbd_step i s) = EMIT_REPORT"
  shows "\<not> watchdog_expired s \<and> \<not> poll_now i s \<and> kbd_response i = ACK
    \<and> KEYBOARD_REPORT_SIZE \<le> unat (rx_byte_count s)"
proof -
  have w: "\<not> watchdog_expired s"
    using assms by (auto simp add: kbd_step_def kbd_init_def)
  with assms have f: "kbd_fsm (kbd_fsm_step i s (rx_path i s (s\<lparr>watchdog := watchdog s + 1\<rparr>)))
      = EMIT_REPORT"
    by (simp add: kbd_step_def)
  have p: "\<not> poll_now i s"
  proof
    assume "poll_now i s"
    with f assms(1) show False by (simp add: kbd_fsm_step_def rx_path_fsm)
  qed
  have r: "kbd_response i = ACK"
  proof (rule ccontr)
    assume "kbd_response i \<noteq> ACK"
    with f assms(1) p show False
      by (simp add: kbd_fsm_step_def rx_path_fsm split: if_splits)
  qed
  have "KEYBOARD_REPORT_SIZE \<le> unat (rx_byte_count s)"
  proof (rule ccontr)
    assume "\<not> KEYBOARD_REPORT_SIZE \<le> unat (rx_byte_count s)"
    with f assms(1) p r show False by (simp add: kbd_fsm_step_def rx_path_fsm m_If_def)
  qed
  with w p r show ?thesis by simp
qed

lemma kbd_poll_start_step:
  assumes "kbd_fsm s = KBD_POLL" "\<not> watchdog_expired s" "poll_now i s"
  shows "kbd_fsm (kbd_step i s) = KBD_POLL" "rx_byte_count (kbd_step i s) = 0"
    "l_sof_frame (kbd_step i s) = kbd_sof_frame i"
  using assms
  by (simp_all add: kbd_step_def kbd_fsm_step_def rx_path_def m_If_def)

lemma kbd_poll_busy_step:
  assumes "kbd_fsm s = KBD_POLL" "\<not> watchdog_expired s" "\<not> kbd_idle i" "kbd_response i \<noteq> ACK"
  shows "kbd_fsm (kbd_step i s) = KBD_POLL"
    "rx_byte_count (kbd_step i s) = rx_byte_count s + (if kbd_rxs_valid i then 1 else 0)"
    "watchdog (kbd_step i s) = watchdog s + 1 \<or> watchdog (kbd_step i s) = 0"
  using assms
  by (simp_all add: kbd_step_def kbd_fsm_step_def rx_path_def m_If_def poll_now_def
      kbd_rxs_ready_def)

lemma watchdog_cycles_unat: "unat WATCHDOG_CYCLES = 180000000"
  by (simp add: WATCHDOG_CYCLES_def)

lemma watchdog_not_expired:
  assumes "unat (watchdog s) + 1 < unat WATCHDOG_CYCLES"
  shows "\<not> watchdog_expired s" "unat (watchdog s + 1) = unat (watchdog s) + 1"
proof -
  have w: "unat (WATCHDOG_CYCLES - 1) = 179999999"
    by (simp add: WATCHDOG_CYCLES_def)
  show "\<not> watchdog_expired s"
  proof
    assume "watchdog_expired s"
    then have "unat (watchdog s) = 179999999"
      using w by (simp add: watchdog_expired_def)
    with assms show False by (simp add: watchdog_cycles_unat)
  qed
  show "unat (watchdog s + 1) = unat (watchdog s) + 1"
    using assms by (simp add: unat_word_ariths watchdog_cycles_unat)
qed

lemma kbd_bytes_counted:
  assumes "kbd_fsm s = KBD_POLL" "\<forall>j \<in> set js. \<not> kbd_idle j \<and> kbd_response j \<noteq> ACK"
    "unat (watchdog s) + length js < unat WATCHDOG_CYCLES"
  shows "kbd_fsm (kbd_run js s) = KBD_POLL
    \<and> rx_byte_count (kbd_run js s) = rx_byte_count s + of_nat (length (filter kbd_rxs_valid js))"
  using assms
proof (induction js arbitrary: s)
  case Nil
  then show ?case by simp
next
  case (Cons j js)
  from Cons.prems have b: "unat (watchdog s) + 1 < unat WATCHDOG_CYCLES" by simp
  note w = watchdog_not_expired [OF b]
  from Cons.prems have j: "\<not> kbd_idle j" "kbd_response j \<noteq> ACK" by simp_all
  note st = kbd_poll_busy_step [OF Cons.prems(1) w(1) j]
  from st(3) w(2) Cons.prems(3)
  have "unat (watchdog (kbd_step j s)) + length js < unat WATCHDOG_CYCLES"
    by auto
  moreover from Cons.prems have "\<forall>j \<in> set js. \<not> kbd_idle j \<and> kbd_response j \<noteq> ACK" by simp
  ultimately have "kbd_fsm (kbd_run js (kbd_step j s)) = KBD_POLL
    \<and> rx_byte_count (kbd_run js (kbd_step j s))
      = rx_byte_count (kbd_step j s) + of_nat (length (filter kbd_rxs_valid js))"
    using Cons.IH [OF st(1)] by simp
  then show ?case by (simp add: st(2))
qed

text \<open>
  C9 (as amended). The keyboard engine compares no key byte with the previous report. In
  \<open>KBD-POLL\<close>, in a cycle in which the watchdog has not expired, no new poll is started
  (\<open>status.idle\<close> with a new \<open>sof_frame\<close>), the response is ACK and the 4-bit register
  \<open>rx_byte_count\<close> is at least eight, the engine moves to \<open>EMIT-REPORT\<close> and presents the
  assembled report on \<open>o_report\<close>; and it moves from \<open>KBD-POLL\<close> to \<open>EMIT-REPORT\<close> in such
  cycles only. The register is cleared in the cycle that starts a poll and, while the SIE
  is busy with no ACK latched and the watchdog does not expire, counts the received bytes
  modulo 16 (so that a poll answered by 16 to 23 bytes is not emitted). It is the example application behind \<open>o_report\<close> that
  compares \<open>key0\<close> with the previous report's \<open>key0\<close>: when they are equal it returns to its
  idle state and offers no character to the UART.
\<close>

theorem every_full_report_emitted:
  "(kbd_fsm s = KBD_POLL \<and> \<not> watchdog_expired s \<and> \<not> poll_now i s \<and> kbd_response i = ACK
      \<and> KEYBOARD_REPORT_SIZE \<le> unat (rx_byte_count s) \<longrightarrow>
      kbd_fsm (kbd_step i s) = EMIT_REPORT \<and> o_report_valid (kbd_step i s)
      \<and> report_bytes (kbd_step i s) = report_bytes s)
   \<and> (kbd_fsm s = KBD_POLL \<and> kbd_fsm (kbd_step i s) = EMIT_REPORT \<longrightarrow>
        \<not> watchdog_expired s \<and> \<not> poll_now i s \<and> kbd_response i = ACK
        \<and> KEYBOARD_REPORT_SIZE \<le> unat (rx_byte_count s))
   \<and> (kbd_fsm s = KBD_POLL \<and> \<not> watchdog_expired s \<and> poll_now i s \<longrightarrow>
        kbd_fsm (kbd_step i s) = KBD_POLL \<and> rx_byte_count (kbd_step i s) = 0)
   \<and> (kbd_fsm t = KBD_POLL \<and> (\<forall>j \<in> set js. \<not> kbd_idle j \<and> kbd_response j \<noteq> ACK)
        \<and> unat (watchdog t) + length js < unat WATCHDOG_CYCLES \<longrightarrow>
        kbd_fsm (kbd_run js t) = KBD_POLL
        \<and> unat (rx_byte_count (kbd_run js t))
          = (unat (rx_byte_count t) + length (filter kbd_rxs_valid js)) mod 16)
   \<and> (example_fsm e = EX_CHECK \<and> key0 (current_report e) = prev_key0 e \<longrightarrow>
        example_fsm (example_step j e) = EX_IDLE \<and> \<not> uart_valid k (example_step j e))"
proof (intro conjI impI)
  assume a: "kbd_fsm s = KBD_POLL \<and> \<not> watchdog_expired s \<and> \<not> poll_now i s
      \<and> kbd_response i = ACK \<and> KEYBOARD_REPORT_SIZE \<le> unat (rx_byte_count s)"
  then have r: "kbd_fsm (kbd_step i s) = EMIT_REPORT" "report_bytes (kbd_step i s) = report_bytes s"
    by (simp_all add: kbd_poll_ack_step)
  then show "kbd_fsm (kbd_step i s) = EMIT_REPORT" "o_report_valid (kbd_step i s)"
    "report_bytes (kbd_step i s) = report_bytes s"
    by (simp_all add: o_report_valid_def)
next
  assume a: "kbd_fsm s = KBD_POLL \<and> kbd_fsm (kbd_step i s) = EMIT_REPORT"
  then have "\<not> watchdog_expired s \<and> \<not> poll_now i s \<and> kbd_response i = ACK
    \<and> KEYBOARD_REPORT_SIZE \<le> unat (rx_byte_count s)"
    using kbd_poll_emit_only [of s i] by simp
  then show "\<not> watchdog_expired s" "\<not> poll_now i s" "kbd_response i = ACK"
    "KEYBOARD_REPORT_SIZE \<le> unat (rx_byte_count s)"
    by simp_all
next
  assume "kbd_fsm s = KBD_POLL \<and> \<not> watchdog_expired s \<and> poll_now i s"
  then show "kbd_fsm (kbd_step i s) = KBD_POLL" "rx_byte_count (kbd_step i s) = 0"
    by (simp_all add: kbd_poll_start_step)
next
  assume a: "kbd_fsm t = KBD_POLL \<and> (\<forall>j \<in> set js. \<not> kbd_idle j \<and> kbd_response j \<noteq> ACK)
        \<and> unat (watchdog t) + length js < unat WATCHDOG_CYCLES"
  then have c: "kbd_fsm (kbd_run js t) = KBD_POLL
    \<and> rx_byte_count (kbd_run js t) = rx_byte_count t + of_nat (length (filter kbd_rxs_valid js))"
    by (intro kbd_bytes_counted) simp_all
  then show "kbd_fsm (kbd_run js t) = KBD_POLL" by simp
  from c show "unat (rx_byte_count (kbd_run js t))
      = (unat (rx_byte_count t) + length (filter kbd_rxs_valid js)) mod 16"
    by (simp add: unat_word_ariths unat_of_nat mod_add_right_eq)
next
  assume "example_fsm e = EX_CHECK \<and> key0 (current_report e) = prev_key0 e"
  then show "example_fsm (example_step j e) = EX_IDLE" "\<not> uart_valid k (example_step j e)"
    by (simp_all add: example_step_def uart_valid_def)
qed

theorem every_full_report_emitted_witness:
  "let s = kbd_run ([kbd_in False NONE 0] @ acked_report 1 [0, 0, 4, 0, 0, 0, 0, 0]
                    @ kbd_in True NONE 2 # map (kbd_byte 2) [0, 0, 4, 5, 0, 0, 0, 0]) kbd_init;
       t = kbd_run [kbd_in False NONE 0, kbd_in True NONE 1] kbd_init;
       js = map (kbd_byte 1) [0, 0, 4, 0, 0, 0, 0, 0, 0, 0, 4, 0, 0, 0, 0, 0];
       r = \<lparr>modifiers = 0, reserved = 0, key0 = 4, key1 = 5, key2 = 0, key3 = 0, key4 = 0,
            key5 = 0\<rparr>;
       e = \<lparr>example_fsm = EX_CHECK, prev_key0 = 4, current_report = r\<rparr>;
       j = \<lparr>ex_report_valid = False, ex_report_payload = r, ex_ascii_char = 0x61,
            ex_uart_ready = True\<rparr> in
     kbd_fsm s = KBD_POLL \<and> report_bytes s = [0, 0, 4, 5, 0, 0, 0, 0]
     \<and> o_report_valid (kbd_step (kbd_in True ACK 2) s)
     \<and> o_report_payload (kbd_step (kbd_in True ACK 2) s) = r
     \<and> kbd_fsm t = KBD_POLL \<and> rx_byte_count t = 0
     \<and> kbd_fsm (kbd_run js t) = KBD_POLL \<and> rx_byte_count (kbd_run js t) = 0
     \<and> kbd_fsm (kbd_step (kbd_in True ACK 1) (kbd_run js t)) = KBD_POLL
     \<and> example_fsm (example_step j e) = EX_IDLE \<and> \<not> uart_valid j (example_step j e)"
proof -
  define s where "s = kbd_run ([kbd_in False NONE 0] @ acked_report 1 [0, 0, 4, 0, 0, 0, 0, 0]
                    @ kbd_in True NONE 2 # map (kbd_byte 2) [0, 0, 4, 5, 0, 0, 0, 0]) kbd_init"
  define t where "t = kbd_run [kbd_in False NONE 0, kbd_in True NONE 1] kbd_init"
  define js where "js = map (kbd_byte 1) [0, 0, 4, 0, 0, 0, 0, 0, 0, 0, 4, 0, 0, 0, 0, 0]"
  define r where "r = \<lparr>modifiers = 0, reserved = 0, key0 = 4, key1 = 5, key2 = 0, key3 = 0,
            key4 = 0, key5 = (0 :: 8 word)\<rparr>"
  define e where "e = \<lparr>example_fsm = EX_CHECK, prev_key0 = 4, current_report = r\<rparr>"
  define j where "j = \<lparr>ex_report_valid = False, ex_report_payload = r, ex_ascii_char = 0x61,
            ex_uart_ready = True\<rparr>"
  have s: "kbd_fsm s = KBD_POLL" "report_bytes s = [0, 0, 4, 5, 0, 0, 0, 0]"
    "\<not> watchdog_expired s" "\<not> poll_now (kbd_in True ACK 2) s"
    "KEYBOARD_REPORT_SIZE \<le> unat (rx_byte_count s)"
    unfolding s_def by code_simp+
  have t: "kbd_fsm t = KBD_POLL" "rx_byte_count t = 0" "watchdog t = 1"
    unfolding t_def by code_simp+
  have js: "\<forall>j \<in> set js. \<not> kbd_idle j \<and> kbd_response j \<noteq> ACK"
    "length js = 16" "filter kbd_rxs_valid js = js"
    by (simp_all add: js_def kbd_byte_def kbd_in_def)
  have i: "kbd_response (kbd_in True ACK 2) = ACK" by (simp add: kbd_in_def)
  have e: "example_fsm e = EX_CHECK \<and> key0 (current_report e) = prev_key0 e"
    by (simp add: e_def r_def)
  note th = every_full_report_emitted [where s = s and i = "kbd_in True ACK 2" and e = e
      and j = j and k = j and t = t and js = js]
  from th s i e
  have 1: "kbd_fsm (kbd_step (kbd_in True ACK 2) s) = EMIT_REPORT"
    "o_report_valid (kbd_step (kbd_in True ACK 2) s)"
    "report_bytes (kbd_step (kbd_in True ACK 2) s) = [0, 0, 4, 5, 0, 0, 0, 0]"
    "example_fsm (example_step j e) = EX_IDLE" "\<not> uart_valid j (example_step j e)"
    by simp_all
  then have 2: "o_report_payload (kbd_step (kbd_in True ACK 2) s) = r"
    by (simp add: o_report_payload_def r_def)
  from th t js
  have 3: "kbd_fsm (kbd_run js t) = KBD_POLL" "unat (rx_byte_count (kbd_run js t)) = 0"
    by (simp_all add: watchdog_cycles_unat)
  then have 4: "rx_byte_count (kbd_run js t) = 0"
    by (simp add: unat_eq_0)
  have 5: "kbd_fsm (kbd_step (kbd_in True ACK 1) (kbd_run js t)) = KBD_POLL"
    unfolding js_def t_def by code_simp
  show ?thesis
    unfolding Let_def s_def [symmetric] r_def [symmetric] e_def [symmetric] j_def [symmetric]
      t_def [symmetric] js_def [symmetric]
    using s t 1 2 3 4 5 by simp
qed

text \<open>
  A poll answered by sixteen bytes and acknowledged: the 4-bit counter is back at zero when
  the ACK is seen, and nothing is emitted on \<open>o_report\<close>.
\<close>

lemma sixteen_bytes_not_emitted:
  "reports_emitted ([kbd_in False NONE 0]
      @ acked_report 1 [0, 0, 4, 0, 0, 0, 0, 0, 0, 0, 4, 0, 0, 0, 0, 0]) kbd_init = []"
  by code_simp

text \<open>
  The claim as stated fails: two consecutive acknowledged full reports with the same
  \<open>key0\<close> and a different \<open>key1\<close> are both emitted on \<open>o_report\<close>.
\<close>

theorem key0_unchanged_counterexample:
  "let is = [kbd_in False NONE 0] @ acked_report 1 [0, 0, 4, 0, 0, 0, 0, 0]
            @ acked_report 2 [0, 0, 4, 5, 0, 0, 0, 0] in
     map key0 (reports_emitted is kbd_init) = [4, 4]
     \<and> map key1 (reports_emitted is kbd_init) = [0, 5]"
  by code_simp

subsection \<open>SCSI bulk-only transport\<close>














end
